theory Spec2Isabelle
  imports Main "HOL-Library.Sublist"
begin

section \<open>Data model\<close>

text \<open>
  The records of \<^verbatim>\<open>storage/database\<close> as the tracker and the git tracker build them.
  JavaScript strings are modelled as \<^typ>\<open>string\<close> (one \<^typ>\<open>char\<close> per code unit, ASCII
  range), \<^verbatim>\<open>Date.now()\<close> and the other integral numbers as \<^typ>\<open>int\<close>, an optional
  property (\<^verbatim>\<open>undefined\<close>, \<^verbatim>\<open>null\<close>) as \<^typ>\<open>'a option\<close>.
\<close>

record ActivityLog =
  projectPath :: string
  filePath :: string
  language :: string
  timestamp :: int
  duration :: int
  editor :: string
  commitHash :: "string option"
  branch :: "string option"

text \<open>
  \<^verbatim>\<open>GitCommit\<close>, \<^verbatim>\<open>FileActivitySummary\<close> and \<^verbatim>\<open>DailyActivitySummary\<close>, with the
  properties the tracker, the git tracker and the API client read or write (suffixed where
  a name is taken). The row identifier is absent until the store assigns one; a time stamp
  is \<^const>\<open>None\<close> for \<^verbatim>\<open>NaN\<close>.
\<close>

record GitCommit =
  id_c :: "nat option"
  projectPath_c :: string
  commitHash_c :: string
  message_c :: string
  author_c :: string
  authorEmail_c :: string
  timestamp_c :: "int option"
  filesChanged_c :: nat
  linesAdded_c :: nat
  linesDeleted_c :: nat
  branch_c :: "string option"

record FileActivitySummary =
  projectPath_f :: string
  commitHash_f :: "string option"
  branch_f :: "string option"
  filePath_f :: string
  language_f :: string
  totalDuration_f :: int
  activityCount_f :: nat
  firstActivityAt_f :: int
  lastActivityAt_f :: int
  editor_f :: string

record DailyActivitySummary =
  date :: string
  projectPath_d :: string
  totalDuration_d :: int
  languageBreakdown_d :: "(string \<times> int) list"
  filesEdited_d :: "string list"
  commitCount_d :: nat

text \<open>A string is truthy in JavaScript when it is not empty.\<close>

definition truthy :: "string \<Rightarrow> bool" where
  "truthy s \<longleftrightarrow> s \<noteq> []"

section \<open>Collaborators\<close>

text \<open>
  The class \<^verbatim>\<open>Database\<close> (\<^verbatim>\<open>storage/database\<close>) is used through its methods only, so
  the model takes it as a parameter: a store of some type \<open>'db\<close> and the eight methods the
  tracker and the git tracker call. A method that throws (a rejected promise) returns
  \<^term>\<open>Inl Thrown\<close> and leaves the store as it was; a method that writes returns the new
  store.
\<close>

datatype exn = Thrown

record 'db Database =
  insertActivity :: "'db \<Rightarrow> ActivityLog \<Rightarrow> exn + 'db"
  getDailyAggregatedActivities :: "'db \<Rightarrow> nat \<Rightarrow> exn + DailyActivitySummary list"
  deleteActivitiesBeforeDate :: "'db \<Rightarrow> string \<Rightarrow> exn + 'db"
  getAggregatedActivities :: "'db \<Rightarrow> nat \<Rightarrow> exn + FileActivitySummary list"
  deleteAggregatedActivities :: "'db \<Rightarrow> FileActivitySummary list \<Rightarrow> exn + 'db"
  getUnsyncedCommits :: "'db \<Rightarrow> nat \<Rightarrow> exn + GitCommit list"
  deleteCommits :: "'db \<Rightarrow> nat list \<Rightarrow> exn + 'db"
  insertCommit :: "'db \<Rightarrow> GitCommit \<Rightarrow> exn + 'db"

text \<open>
  The three mutations the sync loop sends through \<^verbatim>\<open>ApiClient\<close>, each with the batch it
  carries, and the calls with an effect that the tracker makes on its collaborators (log
  lines are left out): the queries of \<^verbatim>\<open>handleActivity\<close>, the status text, the writes to
  the store and the requests to the remote service.
\<close>

datatype request =
    SyncDailyStats "DailyActivitySummary list"
  | SyncFileActivities "FileActivitySummary list"
  | SyncCommits "GitCommit list"

datatype call =
    GetGitRootForPath string
  | GetWorkspaceFolder string
  | GetActiveCommitForPath string
  | GetActiveBranchForPath string
  | UpdateStatus string
  | InsertActivity ActivityLog
  | Request request
  | DeleteActivitiesBeforeDate string
  | DeleteAggregatedActivities "FileActivitySummary list"
  | DeleteCommits "nat list"

section \<open>GitTracker: path queries (\<^verbatim>\<open>utils/gitTracker.ts\<close>)\<close>

text \<open>
  The in-memory state of \<^verbatim>\<open>GitTracker\<close>: the two caches are \<^verbatim>\<open>Map<string, string>\<close>,
  \<^verbatim>\<open>gitRoots\<close> is a \<^verbatim>\<open>Set<string>\<close>, iterated in insertion order, so it is a list here.
\<close>

record GitTracker =
  currentCommit :: "string \<rightharpoonup> string"
  currentBranch :: "string \<rightharpoonup> string"
  gitRoots :: "string list"

text \<open>
  The condition of the three lookup loops. \<^verbatim>\<open>path.sep\<close> is a constant of the platform
  (a slash on POSIX, a backslash on Windows) and is a parameter \<open>sep\<close> of the model;
  \<^verbatim>\<open>startsWith\<close> is \<^const>\<open>prefix\<close>.
\<close>

definition pathUnderRoot :: "string \<Rightarrow> string \<Rightarrow> string \<Rightarrow> bool" where
  "pathUnderRoot sep fsPath root \<longleftrightarrow>
     fsPath = root \<or> prefix (root @ sep) fsPath \<or> prefix (root @ ''/'') fsPath"

text \<open>
  \<^verbatim>\<open>getGitRootForPath\<close>: the loop over the roots with the running \<^verbatim>\<open>best\<close>;
  \<^verbatim>\<open>!best\<close> holds for \<^verbatim>\<open>undefined\<close> and for the empty string.
\<close>

fun getGitRootForPath_loop :: "string \<Rightarrow> string \<Rightarrow> string list \<Rightarrow> string option \<Rightarrow> string option" where
  "getGitRootForPath_loop sep fsPath [] best = best"
| "getGitRootForPath_loop sep fsPath (root # roots) best =
     getGitRootForPath_loop sep fsPath roots
       (if pathUnderRoot sep fsPath root then
          (case best of
             None \<Rightarrow> Some root
           | Some b \<Rightarrow> if \<not> truthy b \<or> length root > length b then Some root else best)
        else best)"

definition getGitRootForPath :: "string \<Rightarrow> GitTracker \<Rightarrow> string \<Rightarrow> string option" where
  "getGitRootForPath sep this fsPath = getGitRootForPath_loop sep fsPath (gitRoots this) None"

text \<open>
  \<^verbatim>\<open>getActiveCommitForPath\<close> and \<^verbatim>\<open>getActiveBranchForPath\<close> repeat the loop with a
  \<^verbatim>\<open>bestMatch\<close> of their own and read their cache at it; a falsy \<^verbatim>\<open>bestMatch\<close>
  (none, or the empty string) gives \<^verbatim>\<open>undefined\<close>.
\<close>

fun getActiveCommitForPath_loop :: "string \<Rightarrow> string \<Rightarrow> string list \<Rightarrow> string option \<Rightarrow> string option" where
  "getActiveCommitForPath_loop sep fsPath [] bestMatch = bestMatch"
| "getActiveCommitForPath_loop sep fsPath (root # roots) bestMatch =
     getActiveCommitForPath_loop sep fsPath roots
       (if pathUnderRoot sep fsPath root then
          (case bestMatch of
             None \<Rightarrow> Some root
           | Some b \<Rightarrow> if \<not> truthy b \<or> length root > length b then Some root else bestMatch)
        else bestMatch)"

definition getActiveCommitForPath :: "string \<Rightarrow> GitTracker \<Rightarrow> string \<Rightarrow> string option" where
  "getActiveCommitForPath sep this fsPath =
     (case getActiveCommitForPath_loop sep fsPath (gitRoots this) None of
        None \<Rightarrow> None
      | Some bestMatch \<Rightarrow> if truthy bestMatch then currentCommit this bestMatch else None)"

fun getActiveBranchForPath_loop :: "string \<Rightarrow> string \<Rightarrow> string list \<Rightarrow> string option \<Rightarrow> string option" where
  "getActiveBranchForPath_loop sep fsPath [] bestMatch = bestMatch"
| "getActiveBranchForPath_loop sep fsPath (root # roots) bestMatch =
     getActiveBranchForPath_loop sep fsPath roots
       (if pathUnderRoot sep fsPath root then
          (case bestMatch of
             None \<Rightarrow> Some root
           | Some b \<Rightarrow> if \<not> truthy b \<or> length root > length b then Some root else bestMatch)
        else bestMatch)"

definition getActiveBranchForPath :: "string \<Rightarrow> GitTracker \<Rightarrow> string \<Rightarrow> string option" where
  "getActiveBranchForPath sep this fsPath =
     (case getActiveBranchForPath_loop sep fsPath (gitRoots this) None of
        None \<Rightarrow> None
      | Some bestMatch \<Rightarrow> if truthy bestMatch then currentBranch this bestMatch else None)"

section \<open>Tracker: the activity recorder (\<^verbatim>\<open>sync/tracker.ts\<close>)\<close>

text \<open>
  What \<^verbatim>\<open>handleActivity\<close> reads of the host: the document of
  \<^verbatim>\<open>vscode.window.activeTextEditor\<close> (absent when no editor is active) with its file name,
  its language identifier and the path of its workspace folder (absent when the file is in
  none).
\<close>

record TextDocument =
  fileName :: string
  languageId :: string
  workspaceFolder :: "string option"

text \<open>
  The fields of \<^verbatim>\<open>Tracker\<close> that change; \<^verbatim>\<open>syncTimer\<close> holds the handle that
  \<^verbatim>\<open>setTimeout\<close> returned (an object of the host, always truthy), a number here. The
  three intervals are private fields that are initialised once and never assigned, so
  they are constants. The listeners of the tracker are part of the host's state, below.
\<close>

record Tracker =
  isTracking :: bool
  queue :: "ActivityLog list"
  syncTimer :: "nat option"
  lastActivityTime :: int

definition debounceInterval :: int where
  "debounceInterval = 2000"

definition maxIdleTime :: int where
  "maxIdleTime = 5 * 60 * 1000"

definition syncInterval :: int where
  "syncInterval = 60000"

definition newTracker :: Tracker where
  "newTracker = \<lparr>isTracking = False, queue = [], syncTimer = None, lastActivityTime = 0\<rparr>"

text \<open>
  \<^verbatim>\<open>handleActivity\<close>, with \<open>now\<close> the value of \<^verbatim>\<open>Date.now()\<close>. The git tracker is an
  optional constructor argument: \<^verbatim>\<open>this.gitTracker?.f(x)\<close> calls nothing when it is absent.
  The result is the tracker after the call and the calls made.
\<close>

definition handleActivity ::
  "string \<Rightarrow> int \<Rightarrow> TextDocument option \<Rightarrow> GitTracker option \<Rightarrow> Tracker \<Rightarrow> Tracker \<times> call list" where
  "handleActivity sep now activeTextEditor gitTracker this =
     (let timeDiff = now - lastActivityTime this in
      if timeDiff < debounceInterval then (this, [])
      else
        let dur = (if lastActivityTime this \<noteq> 0 \<and> timeDiff < maxIdleTime then timeDiff else 0);
            this1 = this\<lparr>lastActivityTime := now\<rparr>
        in case activeTextEditor of
             None \<Rightarrow> (this1, [])
           | Some doc \<Rightarrow>
               let file = fileName doc;
                   lang = languageId doc;
                   gitRoot = (case gitTracker of None \<Rightarrow> None | Some g \<Rightarrow> getGitRootForPath sep g file);
                   viaGit = (case gitRoot of None \<Rightarrow> False | Some r \<Rightarrow> truthy r);
                   project =
                     (case gitRoot of
                        Some r \<Rightarrow> if truthy r then r else (case workspaceFolder doc of None \<Rightarrow> [] | Some w \<Rightarrow> w)
                      | None \<Rightarrow> (case workspaceFolder doc of None \<Rightarrow> [] | Some w \<Rightarrow> w));
                   commit = (case gitTracker of None \<Rightarrow> None | Some g \<Rightarrow> getActiveCommitForPath sep g file);
                   br = (case gitTracker of None \<Rightarrow> None | Some g \<Rightarrow> getActiveBranchForPath sep g file);
                   log = \<lparr>projectPath = project, filePath = file, language = lang, timestamp = now,
                          duration = dur, editor = ''vscode'', commitHash = commit, branch = br\<rparr>
               in (this1\<lparr>queue := queue this1 @ [log]\<rparr>,
                   (case gitTracker of None \<Rightarrow> [] | Some g \<Rightarrow> [GetGitRootForPath file])
                   @ (if viaGit then [] else [GetWorkspaceFolder file])
                   @ (case gitTracker of None \<Rightarrow> [] | Some g \<Rightarrow> [GetActiveCommitForPath file, GetActiveBranchForPath file])
                   @ [UpdateStatus ''CodeChrono: Tracking...'']))"

section \<open>GitTracker: commit tracking (\<^verbatim>\<open>utils/gitTracker.ts\<close>)\<close>

subsection \<open>String functions of the host language\<close>

text \<open>
  \<^verbatim>\<open>trim\<close> strips white space and line terminators from both ends (here: the ASCII ones,
  tab, line feed, vertical tab, form feed, carriage return, space); \<^verbatim>\<open>\d\<close> is an ASCII
  digit; the dot of a regular expression matches every character but a line terminator.
\<close>

definition isWhiteSpace :: "char \<Rightarrow> bool" where
  "isWhiteSpace c \<longleftrightarrow> (of_char c :: nat) \<in> {9, 10, 11, 12, 13, 32}"

definition trim :: "string \<Rightarrow> string" where
  "trim s = rev (dropWhile isWhiteSpace (rev (dropWhile isWhiteSpace s)))"

definition isDigit :: "char \<Rightarrow> bool" where
  "isDigit c \<longleftrightarrow> 48 \<le> (of_char c :: nat) \<and> (of_char c :: nat) \<le> 57"

definition isLineTerminator :: "char \<Rightarrow> bool" where
  "isLineTerminator c \<longleftrightarrow> (of_char c :: nat) = 10 \<or> (of_char c :: nat) = 13"

text \<open>The value of a string of decimal digits, most significant digit first.\<close>

definition digitsValue :: "string \<Rightarrow> nat" where
  "digitsValue ds = foldl (\<lambda>a c. 10 * a + (of_char c - 48)) 0 ds"

text \<open>
  \<^verbatim>\<open>parseInt(s, 10)\<close>: leading white space, an optional sign, then the longest run of
  digits; \<^verbatim>\<open>NaN\<close> (here \<^const>\<open>None\<close>) when there is no digit.
\<close>

definition parseInt :: "string \<Rightarrow> int option" where
  "parseInt s =
     (let s1 = dropWhile isWhiteSpace s;
          neg = (case s1 of [] \<Rightarrow> False | c # _ \<Rightarrow> c = CHR ''-'');
          s2 = (case s1 of [] \<Rightarrow> [] | c # cs \<Rightarrow> if c = CHR ''-'' \<or> c = CHR ''+'' then cs else s1);
          ds = takeWhile isDigit s2
      in if ds = [] then None
         else Some (if neg then - int (digitsValue ds) else int (digitsValue ds)))"

subsection \<open>The diff-stat pattern\<close>

text \<open>
  \<^verbatim>\<open>diffStats.match(/(\d+) insertion.*?(\d+) deletion/)\<close>, as a backtracking matcher
  reads it. \<open>matchDeletion\<close> is the tail \<^verbatim>\<open>(\d+) deletion\<close> anchored at the head of its
  argument: the greedy digits are the whole run, since a shorter run is followed by a
  digit and not by the space. \<open>matchLazyDeletion\<close> is \<^verbatim>\<open>.*?(\d+) deletion\<close>: the lazy dot
  tries the shortest skip first and cannot cross a line terminator. \<open>matchStatsAt\<close>
  anchors the whole pattern at the head, and \<open>matchStats\<close> tries each start from the
  left and gives the two groups of the first match.
\<close>

definition matchDeletion :: "string \<Rightarrow> string option" where
  "matchDeletion s =
     (let ds = takeWhile isDigit s; rest = dropWhile isDigit s
      in if ds \<noteq> [] \<and> prefix '' deletion'' rest then Some ds else None)"

fun matchLazyDeletion :: "string \<Rightarrow> string option" where
  "matchLazyDeletion [] = matchDeletion []"
| "matchLazyDeletion (c # cs) =
     (case matchDeletion (c # cs) of
        Some d \<Rightarrow> Some d
      | None \<Rightarrow> if isLineTerminator c then None else matchLazyDeletion cs)"

definition matchStatsAt :: "string \<Rightarrow> (string \<times> string) option" where
  "matchStatsAt s =
     (let ds = takeWhile isDigit s; rest = dropWhile isDigit s
      in if ds \<noteq> [] \<and> prefix '' insertion'' rest
         then (case matchLazyDeletion (drop (length '' insertion'') rest) of
                 Some d \<Rightarrow> Some (ds, d)
               | None \<Rightarrow> None)
         else None)"

fun matchStats :: "string \<Rightarrow> (string \<times> string) option" where
  "matchStats [] = matchStatsAt []"
| "matchStats (c # cs) =
     (case matchStatsAt (c # cs) of
        Some r \<Rightarrow> Some r
      | None \<Rightarrow> matchStats cs)"

subsection \<open>Queries on the repository\<close>

text \<open>
  \<^verbatim>\<open>execAsync(cmd, {cwd})\<close> is a parameter \<open>exec\<close> of the model: the standard output of
  the command run in the directory, or \<^const>\<open>None\<close> when the promise is rejected (not a
  repository, no git, a non-zero exit).
\<close>

type_synonym exec = "string \<Rightarrow> string \<Rightarrow> string option"

definition getCurrentCommit :: "exec \<Rightarrow> string \<Rightarrow> string option" where
  "getCurrentCommit exec gitRoot =
     (case exec ''git rev-parse HEAD'' gitRoot of
        Some stdout \<Rightarrow> Some (trim stdout)
      | None \<Rightarrow> None)"

definition getBranch :: "exec \<Rightarrow> string \<Rightarrow> string option" where
  "getBranch exec gitRoot =
     (case exec ''git branch --show-current'' gitRoot of
        Some stdout \<Rightarrow> Some (trim stdout)
      | None \<Rightarrow> None)"

text \<open>
  The \<^verbatim>\<open>Partial<GitCommit>\<close> that \<^verbatim>\<open>getCommitDetails\<close> returns; the time stamp is
  \<^const>\<open>None\<close> for \<^verbatim>\<open>NaN\<close>.
\<close>

record CommitDetails =
  message_p :: string
  author_p :: string
  authorEmail_p :: string
  timestamp_p :: "int option"
  filesChanged_p :: nat
  linesAdded_p :: nat
  linesDeleted_p :: nat

text \<open>
  \<^verbatim>\<open>getCommitDetails\<close>: the four \<^verbatim>\<open>git log\<close> queries of the \<^verbatim>\<open>Promise.all\<close>, then the
  \<^verbatim>\<open>git show --stat\<close>; a rejection of any of the five is caught and gives \<^verbatim>\<open>null\<close>.
  \<^verbatim>\<open>parseInt(x, 10) || 0\<close> on a group of digits is its value.
\<close>

definition getCommitDetails :: "exec \<Rightarrow> string \<Rightarrow> string \<Rightarrow> CommitDetails option" where
  "getCommitDetails exec gitRoot hash =
     (case (exec (''git log -1 --format=%s '' @ hash) gitRoot,
            exec (''git log -1 --format=%an '' @ hash) gitRoot,
            exec (''git log -1 --format=%ae '' @ hash) gitRoot,
            exec (''git log -1 --format=%at '' @ hash) gitRoot) of
        (Some msg, Some author, Some email, Some ts) \<Rightarrow>
          (case exec (''git show --stat --format='' @ [CHR 0x22, CHR 0x22] @ '' '' @ hash) gitRoot of
             Some diffStats \<Rightarrow>
               let stats = matchStats diffStats in
               Some \<lparr>message_p = trim msg,
                     author_p = trim author,
                     authorEmail_p = trim email,
                     timestamp_p = map_option (\<lambda>n. n * 1000) (parseInt (trim ts)),
                     filesChanged_p = length (filter (\<lambda>c. c = CHR 0x0A) diffStats),
                     linesAdded_p = (case stats of Some (a, d) \<Rightarrow> digitsValue a | None \<Rightarrow> 0),
                     linesDeleted_p = (case stats of Some (a, d) \<Rightarrow> digitsValue d | None \<Rightarrow> 0)\<rparr>
           | None \<Rightarrow> None)
      | _ \<Rightarrow> None)"

text \<open>
  \<^verbatim>\<open>trackCommitChange\<close> on the git tracker and the store. The result is \<^term>\<open>Inl Thrown\<close>
  when \<^verbatim>\<open>insertCommit\<close> throws: the promise is rejected before the caches are written.
\<close>

definition trackCommitChange ::
  "'db Database \<Rightarrow> exec \<Rightarrow> string \<Rightarrow> GitTracker \<times> 'db \<Rightarrow> exn + GitTracker \<times> 'db" where
  "trackCommitChange database exec gitRoot s =
     (let this = fst s; store = snd s in
      case getCurrentCommit exec gitRoot of
        None \<Rightarrow> Inr s
      | Some newCommit \<Rightarrow>
          if \<not> truthy newCommit then Inr s
          else if currentCommit this gitRoot = Some newCommit then Inr s
          else
            let details = getCommitDetails exec gitRoot newCommit;
                br = getBranch exec gitRoot;
                saved =
                  (case details of
                     None \<Rightarrow> Inr store
                   | Some d \<Rightarrow>
                       insertCommit database store
                         \<lparr>id_c = None,
                          projectPath_c = gitRoot,
                          commitHash_c = newCommit,
                          message_c = message_p d,
                          author_c = author_p d,
                          authorEmail_c = authorEmail_p d,
                          timestamp_c = timestamp_p d,
                          filesChanged_c = filesChanged_p d,
                          linesAdded_c = linesAdded_p d,
                          linesDeleted_c = linesDeleted_p d,
                          branch_c = (case br of None \<Rightarrow> None | Some b \<Rightarrow> if truthy b then Some b else None)\<rparr>)
            in (case saved of
                  Inl e \<Rightarrow> Inl e
                | Inr store' \<Rightarrow>
                    Inr (this\<lparr>currentCommit := (currentCommit this)(gitRoot \<mapsto> newCommit),
                              currentBranch :=
                                (case br of
                                   None \<Rightarrow> currentBranch this
                                 | Some b \<Rightarrow> if truthy b then (currentBranch this)(gitRoot \<mapsto> b)
                                             else currentBranch this)\<rparr>,
                         store')))"

section \<open>Tracker: the sync cycle (\<^verbatim>\<open>sync/tracker.ts\<close>)\<close>

subsection \<open>Dates of the host\<close>

text \<open>
  \<^verbatim>\<open>new Date()\<close> is a parameter of the cycle: the instant \<open>now\<close> in milliseconds since
  the epoch. \<^verbatim>\<open>toISOString().split("T")[0]\<close> is the UTC calendar date of an instant,
  \<^verbatim>\<open>YYYY-MM-DD\<close> for the years 0 to 9999 and with a sign and six digits otherwise.
  \<open>civilFromDays\<close> is the proleptic Gregorian date of a day number (day 0 is 1970-01-01).
\<close>

definition msPerDay :: int where
  "msPerDay = 86400000"

definition civilFromDays :: "int \<Rightarrow> int \<times> int \<times> int" where
  "civilFromDays day =
     (let z = day + 719468;
          era = z div 146097;
          doe = z mod 146097;
          yoe = (doe - doe div 1460 + doe div 36524 - doe div 146096) div 365;
          doy = doe - (365 * yoe + yoe div 4 - yoe div 100);
          mp = (5 * doy + 2) div 153;
          d = doy - (153 * mp + 2) div 5 + 1;
          m = (if mp < 10 then mp + 3 else mp - 9);
          y = yoe + era * 400 + (if m \<le> 2 then 1 else 0)
      in (y, m, d))"

primrec decimal :: "nat \<Rightarrow> nat \<Rightarrow> string" where
  "decimal 0 n = []"
| "decimal (Suc w) n = decimal w (n div 10) @ [char_of (48 + n mod 10)]"

definition toISODate :: "int \<Rightarrow> string" where
  "toISODate t =
     (case civilFromDays (t div msPerDay) of
        (y, m, d) \<Rightarrow>
          (if 0 \<le> y \<and> y \<le> 9999 then decimal 4 (nat y)
           else (if y < 0 then ''-'' else ''+'') @ decimal 6 (nat \<bar>y\<bar>))
          @ ''-'' @ decimal 2 (nat m) @ ''-'' @ decimal 2 (nat d))"

text \<open>
  The time zone of the host is a parameter of the cycle: the offset of local time from UTC
  in milliseconds, as a function of the UTC instant (to read the local time of an instant)
  and as a function of the local time (to find the instant of a local time); the two
  differ around a change of the offset. \<^verbatim>\<open>getDate\<close> and \<^verbatim>\<open>setDate\<close> work on the local time:
  \<^verbatim>\<open>d.setDate(k)\<close> keeps the local year, month and time of day and takes the day that is
  \<open>k - 1\<close> days after the first of the month, also for \<open>k \<le> 0\<close>, so
  \<^verbatim>\<open>d.setDate(d.getDate() - n)\<close> moves the local time back by \<open>n\<close> whole days; the new
  instant is the one of this local time.
\<close>

record TimeZone =
  offsetAtUTC :: "int \<Rightarrow> int"
  offsetAtLocal :: "int \<Rightarrow> int"

definition localTime :: "TimeZone \<Rightarrow> int \<Rightarrow> int" where
  "localTime zone t = t + offsetAtUTC zone t"

definition utcOfLocal :: "TimeZone \<Rightarrow> int \<Rightarrow> int" where
  "utcOfLocal zone l = l - offsetAtLocal zone l"

definition setDateBack :: "TimeZone \<Rightarrow> int \<Rightarrow> int \<Rightarrow> int" where
  "setDateBack zone t n = utcOfLocal zone (localTime zone t - n * msPerDay)"

text \<open>
  The two date strings of the cycle: \<^verbatim>\<open>new Date()\<close>, \<^verbatim>\<open>setDate(getDate() - n)\<close>, then
  \<^verbatim>\<open>toISOString().split("T")[0]\<close>.
\<close>

definition isoDateDaysAgo :: "TimeZone \<Rightarrow> int \<Rightarrow> int \<Rightarrow> string" where
  "isoDateDaysAgo zone now n = toISODate (setDateBack zone now n)"

text \<open>\<^verbatim>\<open>a < b\<close> on strings compares code unit by code unit; a proper prefix is smaller.\<close>

fun jsStringLess :: "string \<Rightarrow> string \<Rightarrow> bool" where
  "jsStringLess [] [] = False"
| "jsStringLess [] (y # ys) = True"
| "jsStringLess (x # xs) [] = False"
| "jsStringLess (x # xs) (y # ys) =
     ((of_char x :: nat) < of_char y \<or> (x = y \<and> jsStringLess xs ys))"

subsection \<open>The API client\<close>

text \<open>
  The methods of \<^verbatim>\<open>ApiClient\<close> that the loop calls. The network is a parameter \<open>net\<close>:
  for each mutation, \<^verbatim>\<open>client.request\<close> is rejected (no connection, a status that is not
  a success, errors in the reply) or resolves with the payload of the mutation, of which
  the model keeps the field \<^verbatim>\<open>success\<close>. A rejection is caught in the method and reported
  as \<^verbatim>\<open>false\<close>; a request that resolves is reported as \<^verbatim>\<open>true\<close>, and the payload is not
  read; an empty batch is reported as sent without a request. Each method gives its answer
  and the requests it made.
\<close>

datatype response = Rejected | Resolved bool

definition requestOk :: "response \<Rightarrow> bool" where
  "requestOk r = (case r of Rejected \<Rightarrow> False | Resolved success \<Rightarrow> True)"

definition syncDailyStats :: "(request \<Rightarrow> response) \<Rightarrow> DailyActivitySummary list \<Rightarrow> bool \<times> call list" where
  "syncDailyStats net dailyStats =
     (if length dailyStats = 0 then (True, [])
      else (requestOk (net (SyncDailyStats dailyStats)), [Request (SyncDailyStats dailyStats)]))"

definition syncFileActivities :: "(request \<Rightarrow> response) \<Rightarrow> FileActivitySummary list \<Rightarrow> bool \<times> call list" where
  "syncFileActivities net summaries =
     (if length summaries = 0 then (True, [])
      else (requestOk (net (SyncFileActivities summaries)), [Request (SyncFileActivities summaries)]))"

definition syncCommits :: "(request \<Rightarrow> response) \<Rightarrow> GitCommit list \<Rightarrow> bool \<times> call list" where
  "syncCommits net commits =
     (if length commits = 0 then (True, [])
      else (requestOk (net (SyncCommits commits)), [Request (SyncCommits commits)]))"

subsection \<open>The phases of \<^verbatim>\<open>syncLoop\<close>\<close>

text \<open>
  The flush of the queue: one \<^verbatim>\<open>insertActivity\<close> per log of \<^verbatim>\<open>logsToSave\<close>, each in a
  \<^verbatim>\<open>try\<close> of its own, so a row that fails is skipped.
\<close>

fun saveLogs :: "'db Database \<Rightarrow> ActivityLog list \<Rightarrow> 'db \<Rightarrow> 'db \<times> call list" where
  "saveLogs database [] store = (store, [])"
| "saveLogs database (log # logs) store =
     (let store' = (case insertActivity database store log of Inr s \<Rightarrow> s | Inl e \<Rightarrow> store);
          r = saveLogs database logs store'
      in (fst r, InsertActivity log # snd r))"

text \<open>
  The three phases inside the outer \<^verbatim>\<open>try\<close>. Each gives whether it ran to its end (a
  method of the store that throws ends the phase and, through the \<^verbatim>\<open>catch\<close>, the cycle),
  the store and the calls made. \<open>now\<close> and \<open>now2\<close> are the two \<^verbatim>\<open>new Date()\<close> of the
  first phase, \<open>zone\<close> is the time zone of the host.
\<close>

definition syncDailyStatsPhase ::
  "'db Database \<Rightarrow> (request \<Rightarrow> response) \<Rightarrow> TimeZone \<Rightarrow> int \<Rightarrow> int \<Rightarrow> 'db
     \<Rightarrow> bool \<times> 'db \<times> call list" where
  "syncDailyStatsPhase database net zone now now2 store =
     (let yesterdayStr = isoDateDaysAgo zone now 1 in
      case getDailyAggregatedActivities database store 30 of
        Inl e \<Rightarrow> (False, store, [])
      | Inr dailyStats \<Rightarrow>
          let completedDayStats = filter (\<lambda>stat. jsStringLess (date stat) yesterdayStr) dailyStats in
          if length completedDayStats > 0 then
            (let r = syncDailyStats net completedDayStats in
             if fst r then
               (case deleteActivitiesBeforeDate database store (isoDateDaysAgo zone now2 7) of
                  Inl e \<Rightarrow> (False, store, snd r @ [DeleteActivitiesBeforeDate (isoDateDaysAgo zone now2 7)])
                | Inr store' \<Rightarrow> (True, store', snd r @ [DeleteActivitiesBeforeDate (isoDateDaysAgo zone now2 7)]))
             else (True, store, snd r))
          else (True, store, []))"

definition syncFileActivitiesPhase ::
  "'db Database \<Rightarrow> (request \<Rightarrow> response) \<Rightarrow> 'db \<Rightarrow> bool \<times> 'db \<times> call list" where
  "syncFileActivitiesPhase database net store =
     (case getAggregatedActivities database store 50 of
        Inl e \<Rightarrow> (False, store, [])
      | Inr aggregatedActivities \<Rightarrow>
          if length aggregatedActivities > 0 then
            (let r = syncFileActivities net aggregatedActivities in
             if fst r then
               (case deleteAggregatedActivities database store aggregatedActivities of
                  Inl e \<Rightarrow> (False, store, snd r @ [DeleteAggregatedActivities aggregatedActivities])
                | Inr store' \<Rightarrow>
                    (True, store',
                     snd r @ [DeleteAggregatedActivities aggregatedActivities, UpdateStatus ''CodeChrono: Synced'']))
             else (True, store, snd r @ [UpdateStatus ''CodeChrono: Offline'']))
          else (True, store, []))"

definition syncCommitsPhase ::
  "'db Database \<Rightarrow> (request \<Rightarrow> response) \<Rightarrow> 'db \<Rightarrow> bool \<times> 'db \<times> call list" where
  "syncCommitsPhase database net store =
     (case getUnsyncedCommits database store 20 of
        Inl e \<Rightarrow> (False, store, [])
      | Inr commits \<Rightarrow>
          if length commits > 0 then
            (let r = syncCommits net commits in
             if fst r then
               (let ids = List.map_filter id_c commits in
                if length ids > 0 then
                  (case deleteCommits database store ids of
                     Inl e \<Rightarrow> (False, store, snd r @ [DeleteCommits ids])
                   | Inr store' \<Rightarrow> (True, store', snd r @ [DeleteCommits ids]))
                else (True, store, snd r))
             else (True, store, snd r))
          else (True, store, []))"

text \<open>
  One cycle from the flush to the end of the \<^verbatim>\<open>try\<close>: the phases in order, the later
  ones skipped once one has thrown.
\<close>

definition syncCycle ::
  "'db Database \<Rightarrow> (request \<Rightarrow> response) \<Rightarrow> TimeZone \<Rightarrow> int \<Rightarrow> int \<Rightarrow> ActivityLog list \<Rightarrow> 'db
     \<Rightarrow> 'db \<times> call list" where
  "syncCycle database net zone now now2 logsToSave store =
     (let r0 = saveLogs database logsToSave store;
          r1 = syncDailyStatsPhase database net zone now now2 (fst r0)
      in if \<not> fst r1 then (fst (snd r1), snd r0 @ snd (snd r1))
         else
           let r2 = syncFileActivitiesPhase database net (fst (snd r1))
           in if \<not> fst r2 then (fst (snd r2), snd r0 @ snd (snd r1) @ snd (snd r2))
              else
                let r3 = syncCommitsPhase database net (fst (snd r2))
                in (fst (snd r3), snd r0 @ snd (snd r1) @ snd (snd r2) @ snd (snd r3)))"

section \<open>Tracker: starting, stopping and the timer\<close>

text \<open>
  The tracker in its host. The host part of the state: whether the three listeners that
  \<^verbatim>\<open>startTracking\<close> registers are live (\<^verbatim>\<open>dispose\<close> removes them), the handles of the
  pending \<^verbatim>\<open>setTimeout\<close> calls with the next fresh handle, and the calls of \<^verbatim>\<open>syncLoop\<close>
  that are suspended at an \<^verbatim>\<open>await\<close>, each with its \<^verbatim>\<open>logsToSave\<close>.
\<close>

record 'db System =
  tracker :: Tracker
  store :: 'db
  subscribed :: bool
  timers :: "nat list"
  nextTimer :: nat
  inFlight :: "ActivityLog list list"

definition newSystem :: "'db \<Rightarrow> 'db System" where
  "newSystem db =
     \<lparr>tracker = newTracker, store = db, subscribed = False, timers = [], nextTimer = 0, inFlight = []\<rparr>"

text \<open>
  \<^verbatim>\<open>syncLoop\<close> runs in two steps. \<open>syncLoop_begin\<close> is the part before the first
  \<^verbatim>\<open>await\<close>: the guard on \<^verbatim>\<open>isTracking\<close> and the move of the queue into \<^verbatim>\<open>logsToSave\<close>.
  \<open>syncLoop_complete\<close> is the rest, taken as one step when the oldest suspended call
  finishes: the cycle on the store, then line 244, which arms a timer and stores its handle
  whatever the state of the tracker.
\<close>

definition syncLoop_begin :: "'db System \<Rightarrow> 'db System" where
  "syncLoop_begin sys =
     (if \<not> isTracking (tracker sys) then sys
      else sys\<lparr>tracker := (tracker sys)\<lparr>queue := []\<rparr>,
               inFlight := inFlight sys @ [queue (tracker sys)]\<rparr>)"

definition syncLoop_complete ::
  "'db Database \<Rightarrow> (request \<Rightarrow> response) \<Rightarrow> TimeZone \<Rightarrow> int \<Rightarrow> int \<Rightarrow> 'db System
     \<Rightarrow> 'db System" where
  "syncLoop_complete database net zone now now2 sys =
     (case inFlight sys of
        [] \<Rightarrow> sys
      | logsToSave # rest \<Rightarrow>
          sys\<lparr>tracker := (tracker sys)\<lparr>syncTimer := Some (nextTimer sys)\<rparr>,
              store := fst (syncCycle database net zone now now2 logsToSave (store sys)),
              timers := timers sys @ [nextTimer sys],
              nextTimer := Suc (nextTimer sys),
              inFlight := rest\<rparr>)"

definition startTracking :: "'db System \<Rightarrow> 'db System" where
  "startTracking sys =
     (if isTracking (tracker sys) then sys
      else syncLoop_begin (sys\<lparr>tracker := (tracker sys)\<lparr>isTracking := True\<rparr>, subscribed := True\<rparr>))"

definition stopTracking :: "'db System \<Rightarrow> 'db System" where
  "stopTracking sys =
     (if \<not> isTracking (tracker sys) then sys
      else sys\<lparr>tracker := (tracker sys)\<lparr>isTracking := False\<rparr>,
               subscribed := False,
               timers := (case syncTimer (tracker sys) of
                            None \<Rightarrow> timers sys
                          | Some h \<Rightarrow> removeAll h (timers sys))\<rparr>)"

text \<open>
  What can happen to the system: the two commands, a notification of the host (delivered
  to the tracker only while the listeners are live), a pending timer that fires and calls
  \<^verbatim>\<open>syncLoop\<close>, and the completion of a suspended cycle with the answers of the network,
  the time zone and the clock values it met.
\<close>

datatype event =
    StartTracking
  | StopTracking
  | Interaction int "TextDocument option"
  | TimerFires nat
  | CycleCompletes "request \<Rightarrow> response" TimeZone int int

fun step :: "string \<Rightarrow> GitTracker option \<Rightarrow> 'db Database \<Rightarrow> event \<Rightarrow> 'db System \<Rightarrow> 'db System" where
  "step sep gitTracker database StartTracking sys = startTracking sys"
| "step sep gitTracker database StopTracking sys = stopTracking sys"
| "step sep gitTracker database (Interaction now ed) sys =
     (if subscribed sys
      then sys\<lparr>tracker := fst (handleActivity sep now ed gitTracker (tracker sys))\<rparr>
      else sys)"
| "step sep gitTracker database (TimerFires h) sys =
     (if h \<in> set (timers sys) then syncLoop_begin (sys\<lparr>timers := removeAll h (timers sys)\<rparr>) else sys)"
| "step sep gitTracker database (CycleCompletes net zone now now2) sys =
     syncLoop_complete database net zone now now2 sys"

fun run :: "string \<Rightarrow> GitTracker option \<Rightarrow> 'db Database \<Rightarrow> event list \<Rightarrow> 'db System \<Rightarrow> 'db System" where
  "run sep gitTracker database [] sys = sys"
| "run sep gitTracker database (ev # evs) sys =
     run sep gitTracker database evs (step sep gitTracker database ev sys)"

text \<open>
  The notifications of a run that the recorder accepted (delivered while the listeners
  were live, and not debounced), by their clock values, in order.
\<close>

definition acceptedTime :: "event \<Rightarrow> 'db System \<Rightarrow> int list" where
  "acceptedTime ev sys =
     (case ev of
        Interaction now ed \<Rightarrow>
          if subscribed sys \<and> \<not> now - lastActivityTime (tracker sys) < debounceInterval then [now] else []
      | _ \<Rightarrow> [])"

fun acceptedTimes :: "string \<Rightarrow> GitTracker option \<Rightarrow> 'db Database \<Rightarrow> event list \<Rightarrow> 'db System \<Rightarrow> int list" where
  "acceptedTimes sep gitTracker database [] sys = []"
| "acceptedTimes sep gitTracker database (ev # evs) sys =
     acceptedTime ev sys @ acceptedTimes sep gitTracker database evs (step sep gitTracker database ev sys)"

section \<open>A list-backed store\<close>

text \<open>
  Modelled from the spec: the class \<^verbatim>\<open>Database\<close> of \<^verbatim>\<open>storage/database\<close> is not among the
  sources. This instance of the interface keeps the four tables of section 6 of the
  specification (raw activity rows, file-activity aggregates, daily aggregates, commit
  rows) as lists and implements the methods as section 4.3 words them: a fetch gives up to
  the limit, \<^verbatim>\<open>deleteAggregatedActivities\<close> deletes exactly the summaries it is given,
  \<^verbatim>\<open>deleteCommits\<close> deletes the rows with the identifiers it is given,
  \<^verbatim>\<open>deleteActivitiesBeforeDate\<close> deletes the raw rows dated before the date. No method
  throws. The properties below hold for every store; this one serves as an instance.
\<close>

record ListStore =
  activityRows :: "ActivityLog list"
  fileSummaries :: "FileActivitySummary list"
  dailySummaries :: "DailyActivitySummary list"
  commitRows :: "GitCommit list"
  nextCommitId :: nat

definition listDatabase :: "ListStore Database" where
  "listDatabase =
     \<lparr>insertActivity = (\<lambda>s log. Inr (s\<lparr>activityRows := activityRows s @ [log]\<rparr>)),
      getDailyAggregatedActivities = (\<lambda>s n. Inr (take n (dailySummaries s))),
      deleteActivitiesBeforeDate =
        (\<lambda>s d. Inr (s\<lparr>activityRows :=
                          filter (\<lambda>a. \<not> jsStringLess (toISODate (timestamp a)) d) (activityRows s)\<rparr>)),
      getAggregatedActivities = (\<lambda>s n. Inr (take n (fileSummaries s))),
      deleteAggregatedActivities =
        (\<lambda>s batch. Inr (s\<lparr>fileSummaries := filter (\<lambda>x. x \<notin> set batch) (fileSummaries s)\<rparr>)),
      getUnsyncedCommits = (\<lambda>s n. Inr (take n (commitRows s))),
      deleteCommits =
        (\<lambda>s ids. Inr (s\<lparr>commitRows :=
                            filter (\<lambda>c. case id_c c of None \<Rightarrow> True | Some i \<Rightarrow> i \<notin> set ids) (commitRows s)\<rparr>)),
      insertCommit =
        (\<lambda>s c. Inr (s\<lparr>commitRows := commitRows s @ [c\<lparr>id_c := Some (nextCommitId s)\<rparr>],
                        nextCommitId := Suc (nextCommitId s)\<rparr>))\<rparr>"

definition emptyStore :: ListStore where
  "emptyStore =
     \<lparr>activityRows = [], fileSummaries = [], dailySummaries = [], commitRows = [], nextCommitId = 0\<rparr>"

section \<open>Predicates and inputs of the properties\<close>

text \<open>The range of the durations that the recorder attributes to an event.\<close>

definition durationInRange :: "ActivityLog \<Rightarrow> bool" where
  "durationInRange l \<longleftrightarrow> duration l = 0 \<or> (2000 \<le> duration l \<and> duration l < 300000)"

text \<open>A document of the workspace \<^verbatim>\<open>/w\<close>, inside the repository \<^verbatim>\<open>/w/app\<close>.\<close>

definition doc1 :: TextDocument where
  "doc1 = \<lparr>fileName = ''/w/app/a.ts'', languageId = ''typescript'', workspaceFolder = Some ''/w''\<rparr>"

text \<open>
  The logs that were pushed and are not yet handed to the store: the queue and the
  \<^verbatim>\<open>logsToSave\<close> of the suspended cycles.
\<close>

definition pendingLogs :: "'db System \<Rightarrow> ActivityLog list" where
  "pendingLogs sys = queue (tracker sys) @ concat (inFlight sys)"

text \<open>Runs of the system: tracking starts, then two or three notifications arrive.\<close>

definition evs1 :: "event list" where
  "evs1 = [StartTracking, Interaction 10000 (Some doc1), Interaction 10500 (Some doc1)]"

definition evs2 :: "event list" where
  "evs2 = [StartTracking, Interaction 10000 (Some doc1), Interaction 17000 (Some doc1)]"

text \<open>
  A git tracker with a repository \<^verbatim>\<open>/a\<close> and a nested one \<^verbatim>\<open>/a/b\<close>, and the same with
  the roots in the other order.
\<close>

definition nestedRoots :: GitTracker where
  "nestedRoots =
     \<lparr>currentCommit = [''/a'' \<mapsto> ''c0ffee'', ''/a/b'' \<mapsto> ''abc123''],
      currentBranch = [''/a'' \<mapsto> ''main'', ''/a/b'' \<mapsto> ''dev''],
      gitRoots = [''/a'', ''/a/b'']\<rparr>"

definition nestedRoots' :: GitTracker where
  "nestedRoots' = nestedRoots\<lparr>gitRoots := [''/a/b'', ''/a'']\<rparr>"

text \<open>
  Three repositories at \<^verbatim>\<open>/w/app\<close> with the head \<^verbatim>\<open>abc123\<close> on the branch \<^verbatim>\<open>main\<close>. In the
  first every query answers and the commit has insertions only; in the second the queries
  for the details of the commit fail; in the third the query for the branch fails.
\<close>

definition statInsertionsOnly :: string where
  "statInsertionsOnly = '' a.ts | 3 +++'' @ [CHR 0x0A] @ '' 1 file changed, 3 insertions(+)'' @ [CHR 0x0A]"

definition execInsertionsOnly :: exec where
  "execInsertionsOnly cmd cwd =
     (if cmd = ''git rev-parse HEAD'' then Some (''abc123'' @ [CHR 0x0A])
      else if cmd = ''git branch --show-current'' then Some (''main'' @ [CHR 0x0A])
      else if cmd = ''git log -1 --format=%s abc123'' then Some (''fix typo'' @ [CHR 0x0A])
      else if cmd = ''git log -1 --format=%an abc123'' then Some (''Ada'' @ [CHR 0x0A])
      else if cmd = ''git log -1 --format=%ae abc123'' then Some (''ada@example.org'' @ [CHR 0x0A])
      else if cmd = ''git log -1 --format=%at abc123'' then Some (''1749513600'' @ [CHR 0x0A])
      else if cmd = ''git show --stat --format='' @ [CHR 0x22, CHR 0x22] @ '' abc123''
        then Some statInsertionsOnly
      else None)"

definition execNoDetails :: exec where
  "execNoDetails cmd cwd =
     (if cmd = ''git rev-parse HEAD'' then Some (''abc123'' @ [CHR 0x0A])
      else if cmd = ''git branch --show-current'' then Some (''main'' @ [CHR 0x0A])
      else None)"

definition execNoBranch :: exec where
  "execNoBranch cmd cwd =
     (if cmd = ''git branch --show-current'' then None else execInsertionsOnly cmd cwd)"

definition execNoRepository :: exec where
  "execNoRepository cmd cwd = None"

definition newGitTracker :: GitTracker where
  "newGitTracker = \<lparr>currentCommit = Map.empty, currentBranch = Map.empty, gitRoots = [''/w/app'']\<rparr>"

text \<open>The git tracker with the head and the branch of \<^verbatim>\<open>/w/app\<close> in its caches.\<close>

definition trackedNoDetails :: GitTracker where
  "trackedNoDetails =
     newGitTracker\<lparr>currentCommit := [''/w/app'' \<mapsto> ''abc123''],
                   currentBranch := [''/w/app'' \<mapsto> ''main'']\<rparr>"

text \<open>
  A store with three pending file-activity summaries and nothing else, a network that
  rejects every request and one that acknowledges every request.
\<close>

definition summaryOf :: "string \<Rightarrow> int \<Rightarrow> FileActivitySummary" where
  "summaryOf file ms =
     \<lparr>projectPath_f = ''/w/app'', commitHash_f = Some ''abc123'', branch_f = Some ''main'',
      filePath_f = file, language_f = ''typescript'', totalDuration_f = ms,
      activityCount_f = 2, firstActivityAt_f = 1749513600000, lastActivityAt_f = 1749513660000,
      editor_f = ''vscode''\<rparr>"

definition threeSummaries :: "FileActivitySummary list" where
  "threeSummaries =
     [summaryOf ''/w/app/a.ts'' 7000, summaryOf ''/w/app/b.ts'' 3000, summaryOf ''/w/app/c.ts'' 2500]"

definition storeOfThree :: ListStore where
  "storeOfThree = emptyStore\<lparr>fileSummaries := threeSummaries\<rparr>"

definition netDown :: "request \<Rightarrow> response" where
  "netDown r = Rejected"

definition netUp :: "request \<Rightarrow> response" where
  "netUp r = Resolved True"

text \<open>
  A remote service that answers every request with a payload whose \<^verbatim>\<open>success\<close> is false;
  the zone of UTC.
\<close>

definition netRefusing :: "request \<Rightarrow> response" where
  "netRefusing r = Resolved False"

definition fixedZone :: "int \<Rightarrow> TimeZone" where
  "fixedZone offs = \<lparr>offsetAtUTC = (\<lambda>t. offs), offsetAtLocal = (\<lambda>l. offs)\<rparr>"

definition utc :: TimeZone where
  "utc = fixedZone 0"

text \<open>
  A store with the daily aggregates of 2025-06-10, 2025-06-09 and 2025-06-08, most recent
  first, and the instant 2025-06-10 at 12:00 UTC (day 20249 since the epoch).
\<close>

definition dayStat :: "string \<Rightarrow> DailyActivitySummary" where
  "dayStat d =
     \<lparr>date = d, projectPath_d = ''/w/app'', totalDuration_d = 3600000,
      languageBreakdown_d = [(''typescript'', 3600000)], filesEdited_d = [''/w/app/a.ts''],
      commitCount_d = 1\<rparr>"

definition storeOfDays :: ListStore where
  "storeOfDays =
     emptyStore\<lparr>dailySummaries := [dayStat ''2025-06-10'', dayStat ''2025-06-09'', dayStat ''2025-06-08'']\<rparr>"

definition noonJune10 :: int where
  "noonJune10 = 20249 * 86400000 + 43200000"

text \<open>
  Two states of the system on the empty store: \<open>started\<close>, right after
  \<^verbatim>\<open>startTracking\<close>, with the first cycle suspended; \<open>idle\<close>, after that cycle has
  completed, with its timer pending.
\<close>

definition started :: "ListStore System" where
  "started = run ''/'' None listDatabase [StartTracking] (newSystem emptyStore)"

definition idle :: "ListStore System" where
  "idle = run ''/'' None listDatabase [StartTracking, CycleCompletes netUp utc 0 0] (newSystem emptyStore)"

text \<open>
  A store keeps its pending summaries when none of the other writes of a cycle (the insert
  of a log, the retention cleanup, the deletion of commits) changes what it gives for the
  limit 50.
\<close>

definition keepsPendingSummaries :: "'db Database \<Rightarrow> bool" where
  "keepsPendingSummaries database \<longleftrightarrow>
     (\<forall>s log s'. insertActivity database s log = Inr s'
        \<longrightarrow> getAggregatedActivities database s' 50 = getAggregatedActivities database s 50)
     \<and> (\<forall>s d s'. deleteActivitiesBeforeDate database s d = Inr s'
        \<longrightarrow> getAggregatedActivities database s' 50 = getAggregatedActivities database s 50)
     \<and> (\<forall>s ids s'. deleteCommits database s ids = Inr s'
        \<longrightarrow> getAggregatedActivities database s' 50 = getAggregatedActivities database s 50)"

text \<open>
  Modelled from the spec: a second instance of the interface of the class \<^verbatim>\<open>Database\<close>,
  which is not among the sources. It keeps no table of file-activity summaries but derives
  them from the raw rows, as section 3 of the specification describes them (the rows
  grouped by project, commit, branch, file and editor, with the total duration, the count
  and the first and last time stamp); \<^verbatim>\<open>deleteAggregatedActivities\<close> deletes the rows of
  the groups it is given.
\<close>

definition sameGroup :: "ActivityLog \<Rightarrow> FileActivitySummary \<Rightarrow> bool" where
  "sameGroup a x \<longleftrightarrow>
     projectPath a = projectPath_f x \<and> commitHash a = commitHash_f x \<and> branch a = branch_f x
     \<and> filePath a = filePath_f x \<and> editor a = editor_f x"

fun addRow :: "ActivityLog \<Rightarrow> FileActivitySummary list \<Rightarrow> FileActivitySummary list" where
  "addRow a [] =
     [\<lparr>projectPath_f = projectPath a, commitHash_f = commitHash a, branch_f = branch a,
       filePath_f = filePath a, language_f = language a, totalDuration_f = duration a,
       activityCount_f = 1, firstActivityAt_f = timestamp a, lastActivityAt_f = timestamp a,
       editor_f = editor a\<rparr>]"
| "addRow a (x # xs) =
     (if sameGroup a x
      then x\<lparr>totalDuration_f := totalDuration_f x + duration a,
              activityCount_f := Suc (activityCount_f x),
              firstActivityAt_f := min (firstActivityAt_f x) (timestamp a),
              lastActivityAt_f := max (lastActivityAt_f x) (timestamp a)\<rparr> # xs
      else x # addRow a xs)"

definition summariesOf :: "ActivityLog list \<Rightarrow> FileActivitySummary list" where
  "summariesOf rows = foldl (\<lambda>acc a. addRow a acc) [] rows"

definition derivingDatabase :: "ListStore Database" where
  "derivingDatabase =
     listDatabase
       \<lparr>getAggregatedActivities := (\<lambda>s n. Inr (take n (summariesOf (activityRows s)))),
        deleteAggregatedActivities :=
          (\<lambda>s batch. Inr (s\<lparr>activityRows :=
                               filter (\<lambda>a. \<not> list_ex (sameGroup a) batch) (activityRows s)\<rparr>))\<rparr>"

text \<open>Two logs of the same file, and the store that holds the first as its only row.\<close>

definition logOf :: "int \<Rightarrow> int \<Rightarrow> ActivityLog" where
  "logOf t ms =
     \<lparr>projectPath = ''/w/app'', filePath = ''/w/app/a.ts'', language = ''typescript'',
      timestamp = t, duration = ms, editor = ''vscode'', commitHash = Some ''abc123'',
      branch = Some ''main''\<rparr>"

definition storeOfOneRow :: ListStore where
  "storeOfOneRow = emptyStore\<lparr>activityRows := [logOf 1749513600000 0]\<rparr>"

text \<open>
  The date string of a year, a month and a day, as \<^verbatim>\<open>toISOString\<close> prints the years 0 to
  9999, to read the date of an aggregate as a calendar date.
\<close>

definition isoDate :: "nat \<Rightarrow> nat \<Rightarrow> nat \<Rightarrow> string" where
  "isoDate y m d = decimal 4 y @ ''-'' @ decimal 2 m @ ''-'' @ decimal 2 d"

text \<open>
  Two zones. New York around the start of daylight saving time in 2025: five hours behind
  UTC until 2025-03-09 (day 20156) at 07:00 UTC, four hours behind from then on; the local
  times of the skipped hour, from 02:00 to 03:00, are read with the offset before the
  change. Tokyo: nine hours ahead of UTC.
\<close>

definition newYork2025 :: TimeZone where
  "newYork2025 =
     \<lparr>offsetAtUTC = (\<lambda>t. if t < 20156 * 86400000 + 25200000 then - 18000000 else - 14400000),
      offsetAtLocal = (\<lambda>l. if l < 20156 * 86400000 + 10800000 then - 18000000 else - 14400000)\<rparr>"

definition tokyo :: TimeZone where
  "tokyo = fixedZone 32400000"

text \<open>
  The instants 2025-03-09 at 23:30 UTC (19:30 in New York) and 2025-06-09 at 20:00 UTC
  (2025-06-10 at 05:00 in Tokyo), and a store with the daily aggregates of 2025-03-09,
  2025-03-08 and 2025-03-07.
\<close>

definition eveningOfMarch9 :: int where
  "eveningOfMarch9 = 20156 * 86400000 + 84600000"

definition eveningOfJune9 :: int where
  "eveningOfJune9 = 20248 * 86400000 + 72000000"

definition storeOfMarch :: ListStore where
  "storeOfMarch =
     emptyStore\<lparr>dailySummaries := [dayStat ''2025-03-09'', dayStat ''2025-03-08'', dayStat ''2025-03-07'']\<rparr>"

text \<open>
  The runs in which \<^verbatim>\<open>startTracking\<close> is invoked only on a tracker that is tracking
  (where it does nothing) or on a system with no pending timer and no suspended cycle;
  and the states of such runs: while tracking, either one cycle is suspended and no timer
  is pending, or no cycle is suspended and the one pending timer is the one of
  \<^verbatim>\<open>syncTimer\<close>; while not tracking, at most one cycle or timer is left.
\<close>

fun startsAtRest ::
  "string \<Rightarrow> GitTracker option \<Rightarrow> 'db Database \<Rightarrow> event list \<Rightarrow> 'db System \<Rightarrow> bool" where
  "startsAtRest sep gitTracker database [] sys = True"
| "startsAtRest sep gitTracker database (ev # evs) sys =
     ((case ev of
         StartTracking \<Rightarrow> isTracking (tracker sys) \<or> (timers sys = [] \<and> inFlight sys = [])
       | _ \<Rightarrow> True)
      \<and> startsAtRest sep gitTracker database evs (step sep gitTracker database ev sys))"

definition regular :: "'db System \<Rightarrow> bool" where
  "regular sys \<longleftrightarrow>
     (if isTracking (tracker sys)
      then (length (inFlight sys) = 1 \<and> timers sys = [])
           \<or> (inFlight sys = []
              \<and> (case syncTimer (tracker sys) of None \<Rightarrow> False | Some h \<Rightarrow> timers sys = [h]))
      else length (inFlight sys) + length (timers sys) \<le> 1)"

section \<open>The activity recorder: debounce and duration\<close>

lemma handleActivity_debounced:
  "now - lastActivityTime this < 2000 \<Longrightarrow> handleActivity sep now ed g this = (this, [])"
  by (simp add: handleActivity_def debounceInterval_def)

lemma handleActivity_accepted_time:
  "\<not> now - lastActivityTime this < 2000 \<Longrightarrow>
     lastActivityTime (fst (handleActivity sep now ed g this)) = now"
  by (simp add: handleActivity_def debounceInterval_def Let_def split: option.splits)

lemma handleActivity_no_editor:
  "\<not> now - lastActivityTime this < 2000 \<Longrightarrow>
     handleActivity sep now None g this = (this\<lparr>lastActivityTime := now\<rparr>, [])"
  by (simp add: handleActivity_def debounceInterval_def Let_def)

lemma handleActivity_queue:
  "\<not> now - lastActivityTime this < 2000 \<Longrightarrow>
   \<exists>log. queue (fst (handleActivity sep now (Some doc) g this)) = queue this @ [log]
      \<and> timestamp log = now \<and> filePath log = fileName doc
      \<and> duration log =
          (if lastActivityTime this = 0 \<or> 300000 \<le> now - lastActivityTime this then 0
           else now - lastActivityTime this)"
  by (simp add: handleActivity_def debounceInterval_def maxIdleTime_def Let_def)

text \<open>
  C1, as the code has it. An event whose gap \<open>now - lastActivityTime\<close> is below 2000 ms
  is discarded completely, whether or not \<open>lastActivityTime\<close> is 0: the tracker is
  unchanged (no log is enqueued, \<open>lastActivityTime\<close> keeps its value) and no collaborator
  is called. The guard of the code does not test \<open>lastActivityTime\<close>, so a first event
  (\<open>lastActivityTime = 0\<close>) is discarded exactly when its clock value is below 2000, and
  is accepted for every clock value from 2000 on.
\<close>

theorem C1_debounce:
  "(now - lastActivityTime this < 2000 \<longrightarrow> handleActivity sep now ed g this = (this, []))
   \<and> (lastActivityTime this = 0 \<longrightarrow>
        (handleActivity sep now ed g this = (this, []) \<longleftrightarrow> now < 2000))
   \<and> (lastActivityTime this = 0 \<and> 2000 \<le> now \<longrightarrow>
        lastActivityTime (fst (handleActivity sep now ed g this)) = now)"
proof (intro conjI impI)
  assume "now - lastActivityTime this < 2000"
  then show "handleActivity sep now ed g this = (this, [])"
    by (rule handleActivity_debounced)
next
  assume z: "lastActivityTime this = 0"
  show "handleActivity sep now ed g this = (this, []) \<longleftrightarrow> now < 2000"
  proof
    assume eq: "handleActivity sep now ed g this = (this, [])"
    show "now < 2000"
    proof (rule ccontr)
      assume late: "\<not> now < 2000"
      with z have "lastActivityTime (fst (handleActivity sep now ed g this)) = now"
        by (simp add: handleActivity_accepted_time)
      with eq z late show False by simp
    qed
  next
    assume "now < 2000"
    with z show "handleActivity sep now ed g this = (this, [])"
      by (simp add: handleActivity_debounced)
  qed
next
  assume "lastActivityTime this = 0 \<and> 2000 \<le> now"
  then show "lastActivityTime (fst (handleActivity sep now ed g this)) = now"
    by (simp add: handleActivity_accepted_time)
qed

text \<open>
  The theorem at two inputs: an event 1000 ms after the last accepted one is discarded,
  and a first event at clock value 2000 is accepted.
\<close>

theorem C1_debounce_witness:
  "handleActivity ''/'' 5000 (Some doc1) None (newTracker\<lparr>lastActivityTime := 4000\<rparr>)
     = (newTracker\<lparr>lastActivityTime := 4000\<rparr>, [])
   \<and> lastActivityTime (fst (handleActivity ''/'' 2000 (Some doc1) None newTracker)) = 2000"
  using C1_debounce [of 5000 "newTracker\<lparr>lastActivityTime := 4000\<rparr>" "''/''" "Some doc1" None]
        C1_debounce [of 2000 newTracker "''/''" "Some doc1" None]
  by (simp add: newTracker_def)

text \<open>
  The claim as the specification words it fails on a first event with a clock value below
  2000: it is discarded by the debounce guard although \<open>lastActivityTime\<close> is 0.
\<close>

theorem C1_first_event_counterexample:
  "lastActivityTime newTracker = 0 \<and>
   handleActivity ''/'' 1500 (Some doc1) None newTracker = (newTracker, [])"
  by (simp add: handleActivity_def newTracker_def debounceInterval_def)

text \<open>
  In a run from the new system, \<open>lastActivityTime\<close> is the clock value of the last
  accepted notification, and 0 exactly when none was accepted yet: an accepted clock value
  is at least 2000 above the value before it.
\<close>

lemma acceptedTime_cases:
  "acceptedTime ev sys = [] \<or>
   (\<exists>t. acceptedTime ev sys = [t] \<and> 2000 \<le> t - lastActivityTime (tracker sys))"
  by (cases ev) (simp_all add: acceptedTime_def debounceInterval_def)

lemma step_lastActivityTime:
  "lastActivityTime (tracker (step sep g database ev sys)) =
     (case acceptedTime ev sys of
        [] \<Rightarrow> lastActivityTime (tracker sys)
      | t # ts \<Rightarrow> t)"
proof (cases ev)
  case (Interaction now ed)
  then show ?thesis
    by (simp add: acceptedTime_def debounceInterval_def handleActivity_debounced
          handleActivity_accepted_time)
qed (simp_all add: acceptedTime_def startTracking_def stopTracking_def syncLoop_begin_def
       syncLoop_complete_def split: list.splits)

lemma run_lastActivityTime:
  "lastActivityTime (tracker (run sep g database evs sys)) =
     (if acceptedTimes sep g database evs sys = [] then lastActivityTime (tracker sys)
      else last (acceptedTimes sep g database evs sys))"
proof (induction evs arbitrary: sys)
  case Nil
  then show ?case by simp
next
  case (Cons ev evs)
  from acceptedTime_cases [of ev sys] show ?case
  proof
    assume "acceptedTime ev sys = []"
    then show ?thesis by (simp add: Cons.IH step_lastActivityTime)
  next
    assume "\<exists>t. acceptedTime ev sys = [t] \<and> 2000 \<le> t - lastActivityTime (tracker sys)"
    then obtain t where "acceptedTime ev sys = [t]" by blast
    then show ?thesis by (simp add: Cons.IH step_lastActivityTime)
  qed
qed

lemma acceptedTimes_ge:
  "0 \<le> lastActivityTime (tracker sys) \<Longrightarrow>
     \<forall>t \<in> set (acceptedTimes sep g database evs sys). 2000 \<le> t"
proof (induction evs arbitrary: sys)
  case Nil
  then show ?case by simp
next
  case (Cons ev evs)
  from acceptedTime_cases [of ev sys]
  show ?case
  proof
    assume e: "acceptedTime ev sys = []"
    then have "lastActivityTime (tracker (step sep g database ev sys)) = lastActivityTime (tracker sys)"
      by (simp add: step_lastActivityTime)
    with Cons.prems have "0 \<le> lastActivityTime (tracker (step sep g database ev sys))" by simp
    from Cons.IH [OF this] e show ?thesis by simp
  next
    assume "\<exists>t. acceptedTime ev sys = [t] \<and> 2000 \<le> t - lastActivityTime (tracker sys)"
    then obtain t where t: "acceptedTime ev sys = [t]"
      and ge: "2000 \<le> t - lastActivityTime (tracker sys)" by blast
    from t have "lastActivityTime (tracker (step sep g database ev sys)) = t"
      by (simp add: step_lastActivityTime)
    with ge Cons.prems have "0 \<le> lastActivityTime (tracker (step sep g database ev sys))" by simp
    from Cons.IH [OF this] t ge Cons.prems show ?thesis by simp
  qed
qed

lemma first_event_iff:
  "lastActivityTime (tracker (run sep g database evs (newSystem db))) = 0
     \<longleftrightarrow> acceptedTimes sep g database evs (newSystem db) = []"
proof -
  have z: "lastActivityTime (tracker (newSystem db :: 'a System)) = 0"
    by (simp add: newSystem_def newTracker_def)
  then have "\<forall>t \<in> set (acceptedTimes sep g database evs (newSystem db)). 2000 \<le> t"
    by (intro acceptedTimes_ge) simp
  then have "acceptedTimes sep g database evs (newSystem db) \<noteq> [] \<Longrightarrow>
             2000 \<le> last (acceptedTimes sep g database evs (newSystem db))"
    using last_in_set by blast
  then show ?thesis
    using z by (auto simp: run_lastActivityTime)
qed

text \<open>
  C2. For every accepted (not debounced) event with an active document, exactly one log is
  enqueued, and its duration is 0 when \<open>lastActivityTime\<close> is 0 or the gap is at least
  300000 ms, and the gap otherwise (which is then between 2000 and 300000). In a run from
  the new system this reads: the duration is 0 for the first accepted event and when the
  gap since the last accepted event is at least 300000 ms, and that gap otherwise.
\<close>

theorem C2_duration:
  "(\<not> now - lastActivityTime this < 2000 \<longrightarrow>
      (\<exists>log. queue (fst (handleActivity sep now (Some doc) g this)) = queue this @ [log]
         \<and> duration log =
             (if lastActivityTime this = 0 \<or> 300000 \<le> now - lastActivityTime this then 0
              else now - lastActivityTime this)))
   \<and> (this = tracker (run sep g0 database evs (newSystem db))
        \<and> \<not> now - lastActivityTime this < 2000 \<longrightarrow>
      (\<exists>log. queue (fst (handleActivity sep now (Some doc) g this)) = queue this @ [log]
         \<and> duration log =
             (if acceptedTimes sep g0 database evs (newSystem db) = [] then 0
              else if 300000 \<le> now - last (acceptedTimes sep g0 database evs (newSystem db)) then 0
              else now - last (acceptedTimes sep g0 database evs (newSystem db)))))"
proof (intro conjI impI)
  assume "\<not> now - lastActivityTime this < 2000"
  from handleActivity_queue [OF this]
  show "\<exists>log. queue (fst (handleActivity sep now (Some doc) g this)) = queue this @ [log]
         \<and> duration log =
             (if lastActivityTime this = 0 \<or> 300000 \<le> now - lastActivityTime this then 0
              else now - lastActivityTime this)"
    by blast
next
  let ?ts = "acceptedTimes sep g0 database evs (newSystem db)"
  assume a: "this = tracker (run sep g0 database evs (newSystem db))
        \<and> \<not> now - lastActivityTime this < 2000"
  then have acc: "\<not> now - lastActivityTime this < 2000"
    and eq: "this = tracker (run sep g0 database evs (newSystem db))" by blast+
  from handleActivity_queue [OF acc, of sep doc g]
  obtain log where q: "queue (fst (handleActivity sep now (Some doc) g this)) = queue this @ [log]"
    and d: "duration log =
          (if lastActivityTime this = 0 \<or> 300000 \<le> now - lastActivityTime this then 0
           else now - lastActivityTime this)"
    by blast
  have "duration log =
          (if ?ts = [] then 0 else if 300000 \<le> now - last ?ts then 0 else now - last ?ts)"
  proof (cases "?ts = []")
    case True
    with eq have "lastActivityTime this = 0" by (simp add: first_event_iff)
    with d True show ?thesis by simp
  next
    case False
    with eq have nz: "lastActivityTime this \<noteq> 0" by (simp add: first_event_iff)
    from eq False have l: "lastActivityTime this = last ?ts" by (simp add: run_lastActivityTime)
    from d nz have "duration log =
        (if 300000 \<le> now - lastActivityTime this then 0 else now - lastActivityTime this)"
      by simp
    with l False show ?thesis by simp
  qed
  with q show "\<exists>log. queue (fst (handleActivity sep now (Some doc) g this)) = queue this @ [log]
         \<and> duration log =
             (if ?ts = [] then 0 else if 300000 \<le> now - last ?ts then 0 else now - last ?ts)"
    by blast
qed

text \<open>
  The theorem after the run \<open>evs1\<close>, which accepts the notification at 10000 and
  debounces the one at 10500: an event at 17000 records the duration 7000.
\<close>

theorem C2_duration_witness:
  "\<exists>log. queue (fst (handleActivity ''/'' 17000 (Some doc1) None
             (tracker (run ''/'' None listDatabase evs1 (newSystem emptyStore)))))
           = queue (tracker (run ''/'' None listDatabase evs1 (newSystem emptyStore))) @ [log]
         \<and> duration log = 7000"
  using C2_duration [of 17000 "tracker (run ''/'' None listDatabase evs1 (newSystem emptyStore))"
          "''/''" doc1 None None listDatabase evs1 emptyStore]
  by (simp add: evs1_def newSystem_def newTracker_def startTracking_def syncLoop_begin_def acceptedTime_def
      debounceInterval_def handleActivity_def Let_def doc1_def)

text \<open>
  C9. A non-debounced event that arrives when no editor is active changes the tracker in
  \<open>lastActivityTime\<close> only, which becomes \<open>now\<close>: the queue is as it was, and no call
  is made, so neither the project nor the commit nor the branch is resolved.
\<close>

theorem C9_no_active_editor:
  "\<not> now - lastActivityTime this < 2000 \<Longrightarrow>
     queue (fst (handleActivity sep now None g this)) = queue this
     \<and> snd (handleActivity sep now None g this) = []
     \<and> lastActivityTime (fst (handleActivity sep now None g this)) = now
     \<and> fst (handleActivity sep now None g this) = this\<lparr>lastActivityTime := now\<rparr>"
proof -
  assume "\<not> now - lastActivityTime this < 2000"
  then have "handleActivity sep now None g this = (this\<lparr>lastActivityTime := now\<rparr>, [])"
    by (rule handleActivity_no_editor)
  then show ?thesis by simp
qed

text \<open>The theorem at a first event at clock value 10000 with no active editor.\<close>

theorem C9_no_active_editor_witness:
  "queue (fst (handleActivity ''/'' 10000 None (Some nestedRoots) newTracker)) = []
   \<and> snd (handleActivity ''/'' 10000 None (Some nestedRoots) newTracker) = []
   \<and> lastActivityTime (fst (handleActivity ''/'' 10000 None (Some nestedRoots) newTracker)) = 10000"
  using C9_no_active_editor [of 10000 newTracker "''/''" "Some nestedRoots"]
  by (simp add: newTracker_def)

section \<open>The activity recorder: the range of the durations\<close>

text \<open>
  \<^verbatim>\<open>handleActivity\<close> is the only place that pushes on the queue. The invariant of the
  system is on the logs that are pending; a step adds at most one log to them, and the
  cycle hands to the store the logs of its \<^verbatim>\<open>logsToSave\<close> and no other.
\<close>

lemma handleActivity_queue_range:
  "queue (fst (handleActivity sep now ed g this)) = queue this
   \<or> (\<exists>log. queue (fst (handleActivity sep now ed g this)) = queue this @ [log]
         \<and> durationInRange log)"
proof (cases "now - lastActivityTime this < 2000")
  case True
  then show ?thesis by (simp add: handleActivity_debounced)
next
  case False
  show ?thesis
  proof (cases ed)
    case None
    with False show ?thesis by (simp add: handleActivity_no_editor)
  next
    case (Some doc)
    from handleActivity_queue [OF False, of sep doc g]
    obtain log where q: "queue (fst (handleActivity sep now (Some doc) g this)) = queue this @ [log]"
      and d: "duration log =
          (if lastActivityTime this = 0 \<or> 300000 \<le> now - lastActivityTime this then 0
           else now - lastActivityTime this)"
      by blast
    from d False have "durationInRange log"
      by (simp add: durationInRange_def split: if_splits)
    with q Some show ?thesis by blast
  qed
qed

lemma step_pendingLogs:
  "set (pendingLogs (step sep g database ev sys)) \<subseteq> set (pendingLogs sys)
   \<or> (\<exists>log. set (pendingLogs (step sep g database ev sys)) = insert log (set (pendingLogs sys))
         \<and> durationInRange log)"
proof (cases ev)
  case StartTracking
  then show ?thesis
    by (auto simp: pendingLogs_def startTracking_def syncLoop_begin_def)
next
  case StopTracking
  then show ?thesis
    by (auto simp: pendingLogs_def stopTracking_def)
next
  case (Interaction now ed)
  from handleActivity_queue_range [of sep now ed g "tracker sys"]
  show ?thesis using Interaction
    by (auto simp: pendingLogs_def)
next
  case (TimerFires h)
  then show ?thesis
    by (auto simp: pendingLogs_def syncLoop_begin_def)
next
  case (CycleCompletes net zone now now2)
  then show ?thesis
    by (auto simp: pendingLogs_def syncLoop_complete_def split: list.splits)
qed

lemma run_pendingLogs:
  "\<forall>log \<in> set (pendingLogs sys). durationInRange log \<Longrightarrow>
   \<forall>log \<in> set (pendingLogs (run sep g database evs sys)). durationInRange log"
proof (induction evs arbitrary: sys)
  case Nil
  then show ?case by simp
next
  case (Cons ev evs)
  from step_pendingLogs [of sep g database ev sys] Cons.prems
  have "\<forall>log \<in> set (pendingLogs (step sep g database ev sys)). durationInRange log"
    by auto
  from Cons.IH [OF this] show ?case by simp
qed

lemma saveLogs_calls:
  "snd (saveLogs database logs st) = map InsertActivity logs"
  by (induction logs arbitrary: st) (simp_all add: Let_def)

lemma syncDailyStatsPhase_no_insert:
  "InsertActivity log \<notin> set (snd (snd (syncDailyStatsPhase database net zone n1 n2 st)))"
  by (auto simp: syncDailyStatsPhase_def syncDailyStats_def Let_def split: sum.splits)

lemma syncFileActivitiesPhase_no_insert:
  "InsertActivity log \<notin> set (snd (snd (syncFileActivitiesPhase database net st)))"
  by (auto simp: syncFileActivitiesPhase_def syncFileActivities_def Let_def split: sum.splits)

lemma syncCommitsPhase_no_insert:
  "InsertActivity log \<notin> set (snd (snd (syncCommitsPhase database net st)))"
  by (auto simp: syncCommitsPhase_def syncCommits_def Let_def split: sum.splits)

lemma syncCycle_inserts:
  "InsertActivity log \<in> set (snd (syncCycle database net zone n1 n2 logs st)) \<longleftrightarrow> log \<in> set logs"
  by (auto simp: syncCycle_def Let_def saveLogs_calls syncDailyStatsPhase_no_insert
        syncFileActivitiesPhase_no_insert syncCommitsPhase_no_insert)

text \<open>
  C10. Every log that \<^verbatim>\<open>handleActivity\<close> pushes, from any tracker and at any clock value,
  has a duration that is 0 or in the range from 2000 (included) to 300000 (excluded); in
  every state that a run of the system reaches from the new system, every pending log has
  such a duration; and the logs that a cycle inserts into the store are pending logs.
\<close>

theorem C10_duration_range:
  "(queue (fst (handleActivity sep now ed g this)) = queue this
      \<or> (\<exists>log. queue (fst (handleActivity sep now ed g this)) = queue this @ [log]
            \<and> durationInRange log))
   \<and> (\<forall>log \<in> set (pendingLogs (run sep g database evs (newSystem db))). durationInRange log)
   \<and> (\<forall>log. InsertActivity log \<in> set (snd (syncCycle database net zone n1 n2 logs st))
          \<longrightarrow> log \<in> set logs)"
proof (intro conjI)
  show "queue (fst (handleActivity sep now ed g this)) = queue this
      \<or> (\<exists>log. queue (fst (handleActivity sep now ed g this)) = queue this @ [log]
            \<and> durationInRange log)"
    by (rule handleActivity_queue_range)
next
  have "\<forall>log \<in> set (pendingLogs (newSystem db :: 'a System)). durationInRange log"
    by (simp add: pendingLogs_def newSystem_def newTracker_def)
  then show "\<forall>log \<in> set (pendingLogs (run sep g database evs (newSystem db))). durationInRange log"
    by (rule run_pendingLogs)
next
  show "\<forall>log. InsertActivity log \<in> set (snd (syncCycle database net zone n1 n2 logs st))
          \<longrightarrow> log \<in> set logs"
    by (simp add: syncCycle_inserts)
qed

text \<open>
  The theorem after the run \<open>evs2\<close>: two logs are pending, and the second has the duration
  7000, the gap between the two accepted events.
\<close>

theorem C10_duration_range_witness:
  "length (pendingLogs (run ''/'' None listDatabase evs2 (newSystem emptyStore))) = 2
   \<and> duration (last (pendingLogs (run ''/'' None listDatabase evs2 (newSystem emptyStore)))) = 7000
   \<and> durationInRange (last (pendingLogs (run ''/'' None listDatabase evs2 (newSystem emptyStore))))"
  using C10_duration_range [where sep = "''/''" and g = None and database = listDatabase
          and evs = evs2 and db = emptyStore]
  by (simp add: evs2_def newSystem_def newTracker_def startTracking_def syncLoop_begin_def
      debounceInterval_def maxIdleTime_def handleActivity_def Let_def doc1_def pendingLogs_def)

section \<open>The git tracker: the root of a path\<close>

text \<open>
  A root that covers a path is a prefix of it, so two covering roots of the same length
  are the same root, and the longest covering root is unique. The loop returns it: the
  invariant below is on the running \<^verbatim>\<open>best\<close>.
\<close>

lemma pathUnderRoot_prefix: "pathUnderRoot sep p r \<Longrightarrow> prefix r p"
  by (auto simp: pathUnderRoot_def dest: append_prefixD)

lemma pathUnderRoot_same_length:
  assumes "pathUnderRoot sep p r" and "pathUnderRoot sep p r'" and "length r = length r'"
  shows "r = r'"
proof -
  from assms(1,2) have "prefix r p" and "prefix r' p"
    by (simp_all add: pathUnderRoot_prefix)
  then obtain u v where u: "p = r @ u" and v: "p = r' @ v"
    unfolding prefix_def by blast
  from u v have "r @ u = r' @ v" by simp
  with assms(3) show ?thesis by simp
qed

lemma getGitRootForPath_loop_result:
  "(case getGitRootForPath_loop sep p roots best of
      None \<Rightarrow> best = None \<and> (\<forall>r \<in> set roots. \<not> pathUnderRoot sep p r)
    | Some r \<Rightarrow>
        (best = Some r \<or> (r \<in> set roots \<and> pathUnderRoot sep p r))
        \<and> (\<forall>r' \<in> set roots. pathUnderRoot sep p r' \<longrightarrow> length r' \<le> length r)
        \<and> (\<forall>b. best = Some b \<longrightarrow> length b \<le> length r))"
proof (induction roots arbitrary: best)
  case Nil
  then show ?case by (simp split: option.splits)
next
  case (Cons root roots)
  let ?best' = "if pathUnderRoot sep p root then
          (case best of
             None \<Rightarrow> Some root
           | Some b \<Rightarrow> if \<not> truthy b \<or> length root > length b then Some root else best)
        else best"
  have step: "getGitRootForPath_loop sep p (root # roots) best = getGitRootForPath_loop sep p roots ?best'"
    by simp
  from Cons.IH [of ?best'] show ?case
    unfolding step
    by (cases "getGitRootForPath_loop sep p roots ?best'"; cases best)
       (auto simp: truthy_def split: if_splits)
qed

lemma getGitRootForPath_None:
  "getGitRootForPath sep this p = None \<longleftrightarrow> (\<forall>r \<in> set (gitRoots this). \<not> pathUnderRoot sep p r)"
  using getGitRootForPath_loop_result [where sep = sep and p = p and roots = "gitRoots this" and best = None]
  by (auto simp: getGitRootForPath_def split: option.splits)

lemma getGitRootForPath_Some:
  assumes "getGitRootForPath sep this p = Some r"
  shows "r \<in> set (gitRoots this)" and "pathUnderRoot sep p r"
    and "\<forall>r' \<in> set (gitRoots this). pathUnderRoot sep p r' \<longrightarrow> length r' \<le> length r"
  using getGitRootForPath_loop_result [where sep = sep and p = p and roots = "gitRoots this" and best = None] assms
  by (auto simp: getGitRootForPath_def)

lemma getGitRootForPath_longest:
  assumes "getGitRootForPath sep this p = Some r"
    and "r' \<in> set (gitRoots this)" and "pathUnderRoot sep p r'" and "r' \<noteq> r"
  shows "length r' < length r"
proof -
  from getGitRootForPath_Some [OF assms(1)] assms(2,3)
  have le: "length r' \<le> length r" and u: "pathUnderRoot sep p r" by auto
  from pathUnderRoot_same_length [OF u assms(3)] assms(4) have "length r \<noteq> length r'" by auto
  with le show ?thesis by simp
qed

lemma getGitRootForPath_set:
  assumes "set (gitRoots this') = set (gitRoots this)"
  shows "getGitRootForPath sep this' p = getGitRootForPath sep this p"
proof (cases "getGitRootForPath sep this p")
  case None
  then have "\<forall>r \<in> set (gitRoots this). \<not> pathUnderRoot sep p r"
    by (simp only: getGitRootForPath_None)
  with assms have "\<forall>r \<in> set (gitRoots this'). \<not> pathUnderRoot sep p r" by simp
  then have "getGitRootForPath sep this' p = None"
    by (simp only: getGitRootForPath_None)
  with None show ?thesis by simp
next
  case (Some r)
  with assms have "getGitRootForPath sep this' p \<noteq> None"
    using getGitRootForPath_Some(1,2) [OF Some] by (auto simp: getGitRootForPath_None)
  then obtain r' where Some': "getGitRootForPath sep this' p = Some r'" by auto
  have "r' = r"
  proof (rule ccontr)
    assume ne: "r' \<noteq> r"
    from getGitRootForPath_Some(1,2) [OF Some'] assms
    have "r' \<in> set (gitRoots this)" "pathUnderRoot sep p r'" by auto
    from getGitRootForPath_longest [OF Some this ne] have a: "length r' < length r" .
    from getGitRootForPath_Some(1,2) [OF Some] assms
    have "r \<in> set (gitRoots this')" "pathUnderRoot sep p r" by auto
    from getGitRootForPath_longest [OF Some' this] ne have "length r < length r'" by auto
    with a show False by simp
  qed
  with Some Some' show ?thesis by simp
qed

lemma getActiveCommitForPath_loop_eq:
  "getActiveCommitForPath_loop sep p roots best = getGitRootForPath_loop sep p roots best"
  by (induction roots arbitrary: best) simp_all

lemma getActiveBranchForPath_loop_eq:
  "getActiveBranchForPath_loop sep p roots best = getGitRootForPath_loop sep p roots best"
  by (induction roots arbitrary: best) simp_all

text \<open>
  C4. \<^verbatim>\<open>getGitRootForPath\<close> returns no root exactly when no known root covers the path
  (the path is the root, or starts with the root followed by the platform's separator or
  by a slash). A root that it returns is a known root that covers the path, and every
  other known root that covers the path is strictly shorter. The result depends on the set
  of the known roots only, not on their order. \<^verbatim>\<open>getActiveCommitForPath\<close> and
  \<^verbatim>\<open>getActiveBranchForPath\<close> read their cache at the root that \<^verbatim>\<open>getGitRootForPath\<close>
  returns.
\<close>

theorem C4_longest_prefix:
  "(getGitRootForPath sep this p = None \<longleftrightarrow>
      (\<forall>r \<in> set (gitRoots this). \<not> (p = r \<or> prefix (r @ sep) p \<or> prefix (r @ ''/'') p)))
   \<and> (\<forall>r. getGitRootForPath sep this p = Some r \<longrightarrow>
         r \<in> set (gitRoots this) \<and> (p = r \<or> prefix (r @ sep) p \<or> prefix (r @ ''/'') p)
         \<and> (\<forall>r' \<in> set (gitRoots this).
               (p = r' \<or> prefix (r' @ sep) p \<or> prefix (r' @ ''/'') p) \<and> r' \<noteq> r
                 \<longrightarrow> length r' < length r))
   \<and> (set (gitRoots this') = set (gitRoots this) \<longrightarrow>
         getGitRootForPath sep this' p = getGitRootForPath sep this p)
   \<and> getActiveCommitForPath sep this p =
       (case getGitRootForPath sep this p of
          None \<Rightarrow> None
        | Some r \<Rightarrow> if truthy r then currentCommit this r else None)
   \<and> getActiveBranchForPath sep this p =
       (case getGitRootForPath sep this p of
          None \<Rightarrow> None
        | Some r \<Rightarrow> if truthy r then currentBranch this r else None)"
proof (intro conjI allI impI)
  show "getGitRootForPath sep this p = None \<longleftrightarrow>
      (\<forall>r \<in> set (gitRoots this). \<not> (p = r \<or> prefix (r @ sep) p \<or> prefix (r @ ''/'') p))"
    by (simp add: getGitRootForPath_None pathUnderRoot_def)
next
  fix r assume "getGitRootForPath sep this p = Some r"
  then show "r \<in> set (gitRoots this)" by (rule getGitRootForPath_Some(1))
next
  fix r assume "getGitRootForPath sep this p = Some r"
  then have "pathUnderRoot sep p r" by (rule getGitRootForPath_Some(2))
  then show "p = r \<or> prefix (r @ sep) p \<or> prefix (r @ ''/'') p"
    by (simp add: pathUnderRoot_def)
next
  fix r assume s: "getGitRootForPath sep this p = Some r"
  show "\<forall>r' \<in> set (gitRoots this).
               (p = r' \<or> prefix (r' @ sep) p \<or> prefix (r' @ ''/'') p) \<and> r' \<noteq> r
                 \<longrightarrow> length r' < length r"
    using getGitRootForPath_longest [OF s] by (auto simp: pathUnderRoot_def)
next
  assume "set (gitRoots this') = set (gitRoots this)"
  then show "getGitRootForPath sep this' p = getGitRootForPath sep this p"
    by (rule getGitRootForPath_set)
next
  show "getActiveCommitForPath sep this p =
       (case getGitRootForPath sep this p of
          None \<Rightarrow> None
        | Some r \<Rightarrow> if truthy r then currentCommit this r else None)"
    by (simp add: getActiveCommitForPath_def getGitRootForPath_def getActiveCommitForPath_loop_eq)
next
  show "getActiveBranchForPath sep this p =
       (case getGitRootForPath sep this p of
          None \<Rightarrow> None
        | Some r \<Rightarrow> if truthy r then currentBranch this r else None)"
    by (simp add: getActiveBranchForPath_def getGitRootForPath_def getActiveBranchForPath_loop_eq)
qed

text \<open>
  The theorem at the roots \<^verbatim>\<open>/a\<close> and \<^verbatim>\<open>/a/b\<close> and the path \<^verbatim>\<open>/a/b/file.ts\<close>: the root is
  \<^verbatim>\<open>/a/b\<close> in either order of the roots, and the commit and the branch are those of
  \<^verbatim>\<open>/a/b\<close>.
\<close>

theorem C4_longest_prefix_witness:
  "getGitRootForPath ''/'' nestedRoots ''/a/b/file.ts'' = Some ''/a/b''
   \<and> getGitRootForPath ''/'' nestedRoots' ''/a/b/file.ts'' = Some ''/a/b''
   \<and> length ''/a'' < length ''/a/b''
   \<and> getActiveCommitForPath ''/'' nestedRoots ''/a/b/file.ts'' = Some ''abc123''
   \<and> getActiveBranchForPath ''/'' nestedRoots ''/a/b/file.ts'' = Some ''dev''"
  using C4_longest_prefix [of "''/''" nestedRoots "''/a/b/file.ts''" nestedRoots']
  by (simp add: getGitRootForPath_def nestedRoots_def nestedRoots'_def pathUnderRoot_def truthy_def)

section \<open>The git tracker: the diff-stat pattern\<close>

text \<open>
  What a match of the pattern says about the text: it holds a run of digits followed by
  \<^verbatim>\<open> insertion\<close> and, later on the same line, a run of digits followed by \<^verbatim>\<open> deletion\<close>;
  the two groups are these runs.
\<close>

lemma matchDeletion_Some:
  assumes "matchDeletion s = Some d"
  shows "\<exists>post. s = d @ '' deletion'' @ post" and "d \<noteq> []" and "\<forall>c \<in> set d. isDigit c"
proof -
  from assms have d: "d = takeWhile isDigit s" and ne: "d \<noteq> []"
    and pre: "prefix '' deletion'' (dropWhile isDigit s)"
    by (auto simp: matchDeletion_def Let_def split: if_splits)
  from pre obtain post where "dropWhile isDigit s = '' deletion'' @ post"
    unfolding prefix_def by blast
  with d have "s = d @ '' deletion'' @ post"
    using takeWhile_dropWhile_id [of isDigit s] by simp
  then show "\<exists>post. s = d @ '' deletion'' @ post" by blast
  from ne show "d \<noteq> []" .
  from d show "\<forall>c \<in> set d. isDigit c" by (auto dest: set_takeWhileD)
qed

lemma matchLazyDeletion_Some:
  "matchLazyDeletion s = Some d \<Longrightarrow>
     \<exists>mid post. s = mid @ d @ '' deletion'' @ post \<and> (\<forall>c \<in> set mid. \<not> isLineTerminator c)"
proof (induction s)
  case Nil
  then show ?case by (simp add: matchDeletion_def)
next
  case (Cons c cs)
  show ?case
  proof (cases "matchDeletion (c # cs)")
    case (Some d')
    with Cons.prems have "d' = d" by simp
    with Some matchDeletion_Some(1) [of "c # cs" d]
    obtain post where "c # cs = [] @ d @ '' deletion'' @ post" by auto
    then show ?thesis by (intro exI [of _ "[]"] exI [of _ post]) simp
  next
    case None
    with Cons.prems have nl: "\<not> isLineTerminator c" and "matchLazyDeletion cs = Some d"
      by (auto split: if_splits)
    from Cons.IH [OF this(2)] obtain mid post
      where "cs = mid @ d @ '' deletion'' @ post" and "\<forall>c \<in> set mid. \<not> isLineTerminator c"
      by blast
    with nl show ?thesis
      by (intro exI [of _ "c # mid"] exI [of _ post]) simp
  qed
qed

lemma matchStatsAt_Some:
  assumes "matchStatsAt s = Some (a, d)"
  shows "\<exists>mid post. s = a @ '' insertion'' @ mid @ d @ '' deletion'' @ post
           \<and> (\<forall>c \<in> set mid. \<not> isLineTerminator c)"
proof -
  from assms have a: "a = takeWhile isDigit s"
    and pre: "prefix '' insertion'' (dropWhile isDigit s)"
    and lazy: "matchLazyDeletion (drop (length '' insertion'') (dropWhile isDigit s)) = Some d"
    by (auto simp: matchStatsAt_def Let_def split: if_splits option.splits)
  from pre obtain rest where rest: "dropWhile isDigit s = '' insertion'' @ rest"
    unfolding prefix_def by blast
  with lazy have "matchLazyDeletion rest = Some d" by simp
  from matchLazyDeletion_Some [OF this] obtain mid post
    where "rest = mid @ d @ '' deletion'' @ post" and nl: "\<forall>c \<in> set mid. \<not> isLineTerminator c"
    by blast
  with a rest have "s = a @ '' insertion'' @ mid @ d @ '' deletion'' @ post"
    using takeWhile_dropWhile_id [of isDigit s] by simp
  with nl show ?thesis by blast
qed

lemma matchStats_Some:
  "matchStats s = Some (a, d) \<Longrightarrow>
     \<exists>pre mid post. s = pre @ a @ '' insertion'' @ mid @ d @ '' deletion'' @ post
        \<and> (\<forall>c \<in> set mid. \<not> isLineTerminator c)"
proof (induction s)
  case Nil
  then show ?case by (simp add: matchStatsAt_def)
next
  case (Cons c cs)
  show ?case
  proof (cases "matchStatsAt (c # cs)")
    case (Some r)
    with Cons.prems have "matchStatsAt (c # cs) = Some (a, d)" by simp
    from matchStatsAt_Some [OF this] obtain mid post
      where "c # cs = [] @ a @ '' insertion'' @ mid @ d @ '' deletion'' @ post"
        and "\<forall>c \<in> set mid. \<not> isLineTerminator c" by auto
    then show ?thesis by blast
  next
    case None
    with Cons.prems have "matchStats cs = Some (a, d)" by simp
    from Cons.IH [OF this] obtain pre mid post
      where "cs = pre @ a @ '' insertion'' @ mid @ d @ '' deletion'' @ post"
        and nl: "\<forall>c \<in> set mid. \<not> isLineTerminator c" by blast
    then have "c # cs = (c # pre) @ a @ '' insertion'' @ mid @ d @ '' deletion'' @ post" by simp
    with nl show ?thesis by blast
  qed
qed

lemma matchStats_sublists:
  assumes "matchStats s = Some (a, d)"
  shows "sublist '' insertion'' s" and "sublist '' deletion'' s"
proof -
  from matchStats_Some [OF assms] obtain pre mid post
    where s: "s = pre @ a @ '' insertion'' @ mid @ d @ '' deletion'' @ post" by blast
  then have "s = (pre @ a) @ '' insertion'' @ (mid @ d @ '' deletion'' @ post)" by simp
  then show "sublist '' insertion'' s" unfolding sublist_def by blast
  from s have "s = (pre @ a @ '' insertion'' @ mid @ d) @ '' deletion'' @ post" by simp
  then show "sublist '' deletion'' s" unfolding sublist_def by blast
qed

text \<open>
  C7. When the output of \<^verbatim>\<open>git show --stat\<close> has no deletions phrase (no occurrence of
  \<^verbatim>\<open> deletion\<close>) or no insertions phrase (no occurrence of \<^verbatim>\<open> insertion\<close>), the details
  that \<^verbatim>\<open>getCommitDetails\<close> returns have \<open>linesAdded = 0\<close> and \<open>linesDeleted = 0\<close>.
\<close>

theorem C7_single_phrase:
  "exec (''git show --stat --format='' @ [CHR 0x22, CHR 0x22] @ '' '' @ hash) gitRoot = Some diffStats
   \<and> (\<not> sublist '' deletion'' diffStats \<or> \<not> sublist '' insertion'' diffStats)
   \<and> getCommitDetails exec gitRoot hash = Some d
   \<longrightarrow> linesAdded_p d = 0 \<and> linesDeleted_p d = 0"
proof
  assume a: "exec (''git show --stat --format='' @ [CHR 0x22, CHR 0x22] @ '' '' @ hash) gitRoot = Some diffStats
   \<and> (\<not> sublist '' deletion'' diffStats \<or> \<not> sublist '' insertion'' diffStats)
   \<and> getCommitDetails exec gitRoot hash = Some d"
  then have "matchStats diffStats = None"
    using matchStats_sublists [of diffStats] by (cases "matchStats diffStats") auto
  with a show "linesAdded_p d = 0 \<and> linesDeleted_p d = 0"
    by (auto simp: getCommitDetails_def Let_def split: option.splits)
qed

text \<open>
  The theorem at a commit whose summary line is \<^verbatim>\<open>1 file changed, 3 insertions(+)\<close>: both
  counts are 0, and the two line ends of the output are counted as two files.
\<close>

theorem C7_single_phrase_witness:
  "(\<exists>d. getCommitDetails execInsertionsOnly ''/w/app'' ''abc123'' = Some d
      \<and> filesChanged_p d = 2 \<and> linesAdded_p d = 0 \<and> linesDeleted_p d = 0)
   \<and> sublist ''3 insertions(+)'' statInsertionsOnly"
proof -
  have e: "execInsertionsOnly (''git show --stat --format='' @ [CHR 0x22, CHR 0x22] @ '' '' @ ''abc123'') ''/w/app''
             = Some statInsertionsOnly"
    by (simp add: execInsertionsOnly_def)
  have n: "\<not> sublist '' deletion'' statInsertionsOnly"
    by (simp add: statInsertionsOnly_def sublist_Cons_right)
  have "\<exists>d. getCommitDetails execInsertionsOnly ''/w/app'' ''abc123'' = Some d \<and> filesChanged_p d = 2"
    by (simp add: getCommitDetails_def execInsertionsOnly_def statInsertionsOnly_def Let_def)
  then obtain d where d: "getCommitDetails execInsertionsOnly ''/w/app'' ''abc123'' = Some d"
    and f: "filesChanged_p d = 2" by blast
  from C7_single_phrase [of execInsertionsOnly "''abc123''" "''/w/app''" statInsertionsOnly d] e n d
  have "linesAdded_p d = 0 \<and> linesDeleted_p d = 0" by blast
  moreover have "sublist ''3 insertions(+)'' statInsertionsOnly"
    by (simp add: statInsertionsOnly_def sublist_Cons_right)
  ultimately show ?thesis using d f by blast
qed

section \<open>The git tracker: failing queries\<close>

text \<open>
  The cases of \<^verbatim>\<open>trackCommitChange\<close> by the query that fails. \<^verbatim>\<open>getCommitDetails\<close> gives
  \<^verbatim>\<open>null\<close> exactly when one of its five queries is rejected.
\<close>

lemma getCommitDetails_None:
  "getCommitDetails exec gitRoot h = None \<longleftrightarrow>
     (exec (''git log -1 --format=%s '' @ h) gitRoot = None
      \<or> exec (''git log -1 --format=%an '' @ h) gitRoot = None
      \<or> exec (''git log -1 --format=%ae '' @ h) gitRoot = None
      \<or> exec (''git log -1 --format=%at '' @ h) gitRoot = None
      \<or> exec (''git show --stat --format='' @ [CHR 0x22, CHR 0x22] @ '' '' @ h) gitRoot = None)"
  by (auto simp: getCommitDetails_def Let_def split: option.splits)

lemma trackCommitChange_head_fails:
  "getCurrentCommit exec gitRoot = None \<Longrightarrow>
     trackCommitChange database exec gitRoot (this, st) = Inr (this, st)"
  by (simp add: trackCommitChange_def)

lemma trackCommitChange_unchanged:
  "getCurrentCommit exec gitRoot = Some h \<Longrightarrow> currentCommit this gitRoot = Some h \<Longrightarrow>
     trackCommitChange database exec gitRoot (this, st) = Inr (this, st)"
  by (simp add: trackCommitChange_def)

lemma trackCommitChange_details_fail:
  assumes "getCurrentCommit exec gitRoot = Some h" and "truthy h"
    and "currentCommit this gitRoot \<noteq> Some h" and "getCommitDetails exec gitRoot h = None"
  shows "trackCommitChange database exec gitRoot (this, st) =
           Inr (this\<lparr>currentCommit := (currentCommit this)(gitRoot \<mapsto> h),
                     currentBranch :=
                       (case getBranch exec gitRoot of
                          None \<Rightarrow> currentBranch this
                        | Some b \<Rightarrow> if truthy b then (currentBranch this)(gitRoot \<mapsto> b)
                                    else currentBranch this)\<rparr>, st)"
  using assms by (simp add: trackCommitChange_def Let_def)

lemma trackCommitChange_branch_fails:
  assumes "getCurrentCommit exec gitRoot = Some h" and "truthy h"
    and "currentCommit this gitRoot \<noteq> Some h" and "getCommitDetails exec gitRoot h = Some d"
    and "getBranch exec gitRoot = None"
    and "insertCommit database st
           \<lparr>id_c = None, projectPath_c = gitRoot, commitHash_c = h, message_c = message_p d,
            author_c = author_p d, authorEmail_c = authorEmail_p d, timestamp_c = timestamp_p d,
            filesChanged_c = filesChanged_p d, linesAdded_c = linesAdded_p d,
            linesDeleted_c = linesDeleted_p d, branch_c = None\<rparr> = Inr st'"
  shows "trackCommitChange database exec gitRoot (this, st) =
           Inr (this\<lparr>currentCommit := (currentCommit this)(gitRoot \<mapsto> h)\<rparr>, st')"
  using assms by (simp add: trackCommitChange_def Let_def)

text \<open>
  C3, as the code has it. Every failure of a query is swallowed: \<^verbatim>\<open>trackCommitChange\<close>
  returns normally, and \<^verbatim>\<open>getCommitDetails\<close> gives \<^verbatim>\<open>null\<close> exactly when one of its five
  queries fails. When the query for the head fails, no row is persisted and the caches
  are unchanged, so the next trigger tries again. When the head is new and the query for
  the details of the commit fails, no row is persisted, but the cached commit is set to
  the new head and the cached branch to the name that the query for the branch gives (it
  is unchanged when that query fails or gives the empty name), so that the next trigger
  with the same head does nothing. When the head is
  new and only the query for the branch fails, the row is persisted without a branch, the
  cached commit is set and the cached branch is unchanged.
\<close>

theorem C3_query_failures:
  "(getCurrentCommit exec gitRoot = None \<longrightarrow>
      trackCommitChange database exec gitRoot (this, st) = Inr (this, st))
   \<and> (getCurrentCommit exec gitRoot = Some h \<and> truthy h \<and> currentCommit this gitRoot \<noteq> Some h
        \<and> getCommitDetails exec gitRoot h = None \<longrightarrow>
      (\<exists>this'. this' = this\<lparr>currentCommit := (currentCommit this)(gitRoot \<mapsto> h),
                          currentBranch :=
                            (case getBranch exec gitRoot of
                               None \<Rightarrow> currentBranch this
                             | Some b \<Rightarrow> if truthy b then (currentBranch this)(gitRoot \<mapsto> b)
                                         else currentBranch this)\<rparr>
         \<and> trackCommitChange database exec gitRoot (this, st) = Inr (this', st)
         \<and> trackCommitChange database exec gitRoot (this', st) = Inr (this', st)))
   \<and> (getCurrentCommit exec gitRoot = Some h \<and> truthy h \<and> currentCommit this gitRoot \<noteq> Some h
        \<and> getCommitDetails exec gitRoot h = Some d \<and> getBranch exec gitRoot = None
        \<and> insertCommit database st
           \<lparr>id_c = None, projectPath_c = gitRoot, commitHash_c = h, message_c = message_p d,
            author_c = author_p d, authorEmail_c = authorEmail_p d, timestamp_c = timestamp_p d,
            filesChanged_c = filesChanged_p d, linesAdded_c = linesAdded_p d,
            linesDeleted_c = linesDeleted_p d, branch_c = None\<rparr> = Inr st' \<longrightarrow>
      trackCommitChange database exec gitRoot (this, st) =
        Inr (this\<lparr>currentCommit := (currentCommit this)(gitRoot \<mapsto> h)\<rparr>, st'))
   \<and> (getCommitDetails exec gitRoot h = None \<longleftrightarrow>
        (exec (''git log -1 --format=%s '' @ h) gitRoot = None
         \<or> exec (''git log -1 --format=%an '' @ h) gitRoot = None
         \<or> exec (''git log -1 --format=%ae '' @ h) gitRoot = None
         \<or> exec (''git log -1 --format=%at '' @ h) gitRoot = None
         \<or> exec (''git show --stat --format='' @ [CHR 0x22, CHR 0x22] @ '' '' @ h) gitRoot = None))"
proof (intro conjI impI)
  assume "getCurrentCommit exec gitRoot = None"
  then show "trackCommitChange database exec gitRoot (this, st) = Inr (this, st)"
    by (rule trackCommitChange_head_fails)
next
  assume a: "getCurrentCommit exec gitRoot = Some h \<and> truthy h \<and> currentCommit this gitRoot \<noteq> Some h
        \<and> getCommitDetails exec gitRoot h = None"
  let ?this' = "this\<lparr>currentCommit := (currentCommit this)(gitRoot \<mapsto> h),
                     currentBranch :=
                       (case getBranch exec gitRoot of
                          None \<Rightarrow> currentBranch this
                        | Some b \<Rightarrow> if truthy b then (currentBranch this)(gitRoot \<mapsto> b)
                                    else currentBranch this)\<rparr>"
  from a have 1: "trackCommitChange database exec gitRoot (this, st) = Inr (?this', st)"
    by (simp add: trackCommitChange_details_fail)
  from a have 3: "trackCommitChange database exec gitRoot (?this', st) = Inr (?this', st)"
    by (intro trackCommitChange_unchanged [of _ _ h]) simp_all
  from 1 3 show "\<exists>this'. this' = this\<lparr>currentCommit := (currentCommit this)(gitRoot \<mapsto> h),
                          currentBranch :=
                            (case getBranch exec gitRoot of
                               None \<Rightarrow> currentBranch this
                             | Some b \<Rightarrow> if truthy b then (currentBranch this)(gitRoot \<mapsto> b)
                                         else currentBranch this)\<rparr>
         \<and> trackCommitChange database exec gitRoot (this, st) = Inr (this', st)
         \<and> trackCommitChange database exec gitRoot (this', st) = Inr (this', st)"
    by blast
next
  assume "getCurrentCommit exec gitRoot = Some h \<and> truthy h \<and> currentCommit this gitRoot \<noteq> Some h
        \<and> getCommitDetails exec gitRoot h = Some d \<and> getBranch exec gitRoot = None
        \<and> insertCommit database st
           \<lparr>id_c = None, projectPath_c = gitRoot, commitHash_c = h, message_c = message_p d,
            author_c = author_p d, authorEmail_c = authorEmail_p d, timestamp_c = timestamp_p d,
            filesChanged_c = filesChanged_p d, linesAdded_c = linesAdded_p d,
            linesDeleted_c = linesDeleted_p d, branch_c = None\<rparr> = Inr st'"
  then show "trackCommitChange database exec gitRoot (this, st) =
        Inr (this\<lparr>currentCommit := (currentCommit this)(gitRoot \<mapsto> h)\<rparr>, st')"
    by (elim conjE) (rule trackCommitChange_branch_fails)
next
  show "getCommitDetails exec gitRoot h = None \<longleftrightarrow>
        (exec (''git log -1 --format=%s '' @ h) gitRoot = None
         \<or> exec (''git log -1 --format=%an '' @ h) gitRoot = None
         \<or> exec (''git log -1 --format=%ae '' @ h) gitRoot = None
         \<or> exec (''git log -1 --format=%at '' @ h) gitRoot = None
         \<or> exec (''git show --stat --format='' @ [CHR 0x22, CHR 0x22] @ '' '' @ h) gitRoot = None)"
    by (rule getCommitDetails_None)
qed

text \<open>
  The claim as the specification words it fails when the query for the details fails
  inside \<^verbatim>\<open>trackCommitChange\<close>: no row is persisted, yet the cached commit and branch of
  the root change, and the next trigger does not try again.
\<close>

theorem C3_details_counterexample:
  "getCommitDetails execNoDetails ''/w/app'' ''abc123'' = None
   \<and> currentCommit newGitTracker ''/w/app'' = None
   \<and> trackCommitChange listDatabase execNoDetails ''/w/app'' (newGitTracker, emptyStore)
       = Inr (trackedNoDetails, emptyStore)
   \<and> currentCommit trackedNoDetails ''/w/app'' = Some ''abc123''
   \<and> currentBranch trackedNoDetails ''/w/app'' = Some ''main''
   \<and> trackCommitChange listDatabase execNoDetails ''/w/app'' (trackedNoDetails, emptyStore)
       = Inr (trackedNoDetails, emptyStore)"
  by (simp add: trackCommitChange_def getCommitDetails_def getCurrentCommit_def getBranch_def
        execNoDetails_def trim_def isWhiteSpace_def truthy_def newGitTracker_def
        trackedNoDetails_def Let_def)

text \<open>
  The theorem at three repositories: one where no query answers, one where the queries for
  the details fail, one where the query for the branch fails.
\<close>

lemma execNoDetails_queries:
  "getCurrentCommit execNoDetails ''/w/app'' = Some ''abc123''"
  "getBranch execNoDetails ''/w/app'' = Some ''main''"
  "getCommitDetails execNoDetails ''/w/app'' ''abc123'' = None"
  by (simp_all add: getCurrentCommit_def getBranch_def getCommitDetails_def execNoDetails_def
        trim_def isWhiteSpace_def)

lemma execNoBranch_queries:
  "getCurrentCommit execNoBranch ''/w/app'' = Some ''abc123''"
  "getBranch execNoBranch ''/w/app'' = None"
  "\<exists>d. getCommitDetails execNoBranch ''/w/app'' ''abc123'' = Some d"
  by (simp_all add: getCurrentCommit_def getBranch_def getCommitDetails_def execNoBranch_def
        execInsertionsOnly_def trim_def isWhiteSpace_def Let_def)

theorem C3_query_failures_witness:
  "trackCommitChange listDatabase execNoRepository ''/w/app'' (newGitTracker, emptyStore)
     = Inr (newGitTracker, emptyStore)
   \<and> trackCommitChange listDatabase execNoDetails ''/w/app'' (newGitTracker, emptyStore)
       = Inr (newGitTracker\<lparr>currentCommit := [''/w/app'' \<mapsto> ''abc123''],
                            currentBranch := [''/w/app'' \<mapsto> ''main'']\<rparr>, emptyStore)
   \<and> (\<exists>st'. trackCommitChange listDatabase execNoBranch ''/w/app'' (newGitTracker, emptyStore)
                = Inr (newGitTracker\<lparr>currentCommit := [''/w/app'' \<mapsto> ''abc123'']\<rparr>, st')
         \<and> map branch_c (commitRows st') = [None])"
proof (intro conjI)
  have "getCurrentCommit execNoRepository ''/w/app'' = None"
    by (simp add: getCurrentCommit_def execNoRepository_def)
  with C3_query_failures [where exec = execNoRepository and gitRoot = "''/w/app''"
         and database = listDatabase and this = newGitTracker and st = emptyStore, THEN conjunct1]
  show "trackCommitChange listDatabase execNoRepository ''/w/app'' (newGitTracker, emptyStore)
     = Inr (newGitTracker, emptyStore)"
    by blast
next
  have "truthy ''abc123''" and "currentCommit newGitTracker ''/w/app'' \<noteq> Some ''abc123''"
    by (simp_all add: truthy_def newGitTracker_def)
  with execNoDetails_queries
    C3_query_failures [where exec = execNoDetails and gitRoot = "''/w/app''" and h = "''abc123''"
            and database = listDatabase and this = newGitTracker and st = emptyStore,
            THEN conjunct2, THEN conjunct1]
  have "trackCommitChange listDatabase execNoDetails ''/w/app'' (newGitTracker, emptyStore)
          = Inr (newGitTracker\<lparr>currentCommit := (currentCommit newGitTracker)(''/w/app'' \<mapsto> ''abc123''),
                      currentBranch :=
                        (case getBranch execNoDetails ''/w/app'' of
                           None \<Rightarrow> currentBranch newGitTracker
                         | Some b \<Rightarrow> if truthy b then (currentBranch newGitTracker)(''/w/app'' \<mapsto> b)
                                     else currentBranch newGitTracker)\<rparr>, emptyStore)"
    by blast
  then show "trackCommitChange listDatabase execNoDetails ''/w/app'' (newGitTracker, emptyStore)
       = Inr (newGitTracker\<lparr>currentCommit := [''/w/app'' \<mapsto> ''abc123''],
                            currentBranch := [''/w/app'' \<mapsto> ''main'']\<rparr>, emptyStore)"
    by (simp add: execNoDetails_queries(2) newGitTracker_def truthy_def)
next
  from execNoBranch_queries(3) obtain d
    where d: "getCommitDetails execNoBranch ''/w/app'' ''abc123'' = Some d" by blast
  let ?row = "\<lparr>id_c = None, projectPath_c = ''/w/app'', commitHash_c = ''abc123'', message_c = message_p d,
            author_c = author_p d, authorEmail_c = authorEmail_p d, timestamp_c = timestamp_p d,
            filesChanged_c = filesChanged_p d, linesAdded_c = linesAdded_p d,
            linesDeleted_c = linesDeleted_p d, branch_c = None\<rparr>"
  let ?st' = "emptyStore\<lparr>commitRows := [?row\<lparr>id_c := Some 0\<rparr>], nextCommitId := Suc 0\<rparr>"
  have ins: "insertCommit listDatabase emptyStore ?row = Inr ?st'"
    by (simp add: listDatabase_def emptyStore_def)
  have "truthy ''abc123''" and "currentCommit newGitTracker ''/w/app'' \<noteq> Some ''abc123''"
    by (simp_all add: truthy_def newGitTracker_def)
  with execNoBranch_queries(1,2) d ins
    C3_query_failures [where exec = execNoBranch and gitRoot = "''/w/app''" and h = "''abc123''"
            and database = listDatabase and this = newGitTracker and st = emptyStore
            and d = d and st' = ?st', THEN conjunct2, THEN conjunct2, THEN conjunct1]
  have "trackCommitChange listDatabase execNoBranch ''/w/app'' (newGitTracker, emptyStore) =
        Inr (newGitTracker\<lparr>currentCommit := (currentCommit newGitTracker)(''/w/app'' \<mapsto> ''abc123'')\<rparr>, ?st')"
    by blast
  then show "\<exists>st'. trackCommitChange listDatabase execNoBranch ''/w/app'' (newGitTracker, emptyStore)
                = Inr (newGitTracker\<lparr>currentCommit := [''/w/app'' \<mapsto> ''abc123'']\<rparr>, st')
         \<and> map branch_c (commitRows st') = [None]"
    by (simp add: newGitTracker_def)
qed

section \<open>The sync cycle: file activities\<close>

text \<open>
  Which calls of a cycle can delete file-activity summaries, and what the file-activity
  phase does for each answer of the network.
\<close>

lemma saveLogs_no_delete:
  "DeleteAggregatedActivities b \<notin> set (snd (saveLogs database logs st))"
  by (auto simp: saveLogs_calls)

lemma syncDailyStatsPhase_no_delete:
  "DeleteAggregatedActivities b \<notin> set (snd (snd (syncDailyStatsPhase database net zone n1 n2 st)))"
  by (auto simp: syncDailyStatsPhase_def syncDailyStats_def Let_def split: sum.splits)

lemma syncCommitsPhase_no_delete:
  "DeleteAggregatedActivities b \<notin> set (snd (snd (syncCommitsPhase database net st)))"
  by (auto simp: syncCommitsPhase_def syncCommits_def Let_def split: sum.splits)

lemma syncFileActivitiesPhase_rejected:
  assumes "getAggregatedActivities database st 50 = Inr batch" and "batch \<noteq> []"
    and "net (SyncFileActivities batch) = Rejected"
  shows "syncFileActivitiesPhase database net st =
           (True, st, [Request (SyncFileActivities batch), UpdateStatus ''CodeChrono: Offline''])"
  using assms by (simp add: syncFileActivitiesPhase_def syncFileActivities_def requestOk_def)

lemma syncFileActivitiesPhase_resolved:
  assumes "getAggregatedActivities database st 50 = Inr batch" and "batch \<noteq> []"
    and "net (SyncFileActivities batch) = Resolved success"
  shows "syncFileActivitiesPhase database net st =
           (case deleteAggregatedActivities database st batch of
              Inl e \<Rightarrow> (False, st, [Request (SyncFileActivities batch), DeleteAggregatedActivities batch])
            | Inr st' \<Rightarrow> (True, st', [Request (SyncFileActivities batch), DeleteAggregatedActivities batch,
                                    UpdateStatus ''CodeChrono: Synced'']))"
  using assms
  by (simp add: syncFileActivitiesPhase_def syncFileActivities_def requestOk_def Let_def split: sum.splits)

lemma syncFileActivitiesPhase_sends:
  assumes "getAggregatedActivities database st 50 = Inr batch" and "batch \<noteq> []"
  shows "\<exists>cs. snd (snd (syncFileActivitiesPhase database net st)) = Request (SyncFileActivities batch) # cs"
proof (cases "net (SyncFileActivities batch)")
  case Rejected
  with assms show ?thesis by (simp add: syncFileActivitiesPhase_rejected)
next
  case (Resolved success)
  with assms show ?thesis
    by (simp add: syncFileActivitiesPhase_resolved split: sum.splits)
qed

lemma syncFileActivitiesPhase_delete_iff:
  assumes "getAggregatedActivities database st 50 = Inr batch" and "batch \<noteq> []"
  shows "DeleteAggregatedActivities b \<in> set (snd (snd (syncFileActivitiesPhase database net st)))
           \<longleftrightarrow> net (SyncFileActivities batch) \<noteq> Rejected \<and> b = batch"
proof (cases "net (SyncFileActivities batch)")
  case Rejected
  with assms show ?thesis by (simp add: syncFileActivitiesPhase_rejected)
next
  case (Resolved success)
  with assms show ?thesis
    by (auto simp: syncFileActivitiesPhase_resolved split: sum.splits)
qed

lemma syncCycle_calls:
  assumes "syncDailyStatsPhase database net zone n1 n2 (fst (saveLogs database logs st)) = (True, s1, c1)"
  shows "\<exists>c3. snd (syncCycle database net zone n1 n2 logs st) =
           snd (saveLogs database logs st) @ c1 @ snd (snd (syncFileActivitiesPhase database net s1)) @ c3
         \<and> (\<forall>b. DeleteAggregatedActivities b \<notin> set c3)"
proof (cases "fst (syncFileActivitiesPhase database net s1)")
  case True
  with assms have "snd (syncCycle database net zone n1 n2 logs st) =
           snd (saveLogs database logs st) @ c1 @ snd (snd (syncFileActivitiesPhase database net s1))
             @ snd (snd (syncCommitsPhase database net (fst (snd (syncFileActivitiesPhase database net s1)))))"
    by (simp add: syncCycle_def Let_def)
  then show ?thesis
    by (intro exI [of _ "snd (snd (syncCommitsPhase database net
                (fst (snd (syncFileActivitiesPhase database net s1)))))"])
       (simp add: syncCommitsPhase_no_delete)
next
  case False
  with assms have "snd (syncCycle database net zone n1 n2 logs st) =
           snd (saveLogs database logs st) @ c1 @ snd (snd (syncFileActivitiesPhase database net s1)) @ []"
    by (simp add: syncCycle_def Let_def)
  then show ?thesis by (intro exI [of _ "[]"]) simp
qed

lemma syncCycle_store_rejected:
  assumes "syncDailyStatsPhase database net zone n1 n2 (fst (saveLogs database logs st)) = (True, s1, c1)"
    and "getAggregatedActivities database s1 50 = Inr batch" and "batch \<noteq> []"
    and "net (SyncFileActivities batch) = Rejected"
  shows "fst (syncCycle database net zone n1 n2 logs st) = fst (snd (syncCommitsPhase database net s1))"
  using assms by (simp add: syncCycle_def Let_def syncFileActivitiesPhase_rejected)

text \<open>
  On a store that keeps its pending summaries, the flush, the daily phase and the commit
  phase leave the answer of \<^verbatim>\<open>getAggregatedActivities\<close> as it was.
\<close>

lemma saveLogs_keeps:
  "keepsPendingSummaries database \<Longrightarrow>
     getAggregatedActivities database (fst (saveLogs database logs st)) 50
       = getAggregatedActivities database st 50"
proof (induction logs arbitrary: st)
  case Nil
  then show ?case by simp
next
  case (Cons log logs)
  show ?case
  proof (cases "insertActivity database st log")
    case (Inl e)
    with Cons show ?thesis by (simp add: Let_def)
  next
    case (Inr st')
    with Cons.prems have "getAggregatedActivities database st' 50 = getAggregatedActivities database st 50"
      unfolding keepsPendingSummaries_def by blast
    with Inr Cons.IH [OF Cons.prems, of st'] show ?thesis by (simp add: Let_def)
  qed
qed

lemma syncDailyStatsPhase_keeps:
  assumes "keepsPendingSummaries database"
  shows "getAggregatedActivities database (fst (snd (syncDailyStatsPhase database net zone n1 n2 st))) 50
       = getAggregatedActivities database st 50"
proof -
  have "fst (snd (syncDailyStatsPhase database net zone n1 n2 st)) = st
        \<or> (\<exists>d. deleteActivitiesBeforeDate database st d
                  = Inr (fst (snd (syncDailyStatsPhase database net zone n1 n2 st))))"
    by (auto simp: syncDailyStatsPhase_def Let_def split: sum.splits)
  with assms show ?thesis unfolding keepsPendingSummaries_def by metis
qed

lemma syncCommitsPhase_keeps:
  assumes "keepsPendingSummaries database"
  shows "getAggregatedActivities database (fst (snd (syncCommitsPhase database net st))) 50
       = getAggregatedActivities database st 50"
proof -
  have "fst (snd (syncCommitsPhase database net st)) = st
        \<or> (\<exists>ids. deleteCommits database st ids = Inr (fst (snd (syncCommitsPhase database net st))))"
    by (auto simp: syncCommitsPhase_def Let_def split: sum.splits)
  with assms show ?thesis unfolding keepsPendingSummaries_def by metis
qed

lemma syncCycle_sends:
  assumes "fst (syncDailyStatsPhase database net zone n1 n2 (fst (saveLogs database logs st)))"
    and "getAggregatedActivities database
           (fst (snd (syncDailyStatsPhase database net zone n1 n2 (fst (saveLogs database logs st))))) 50
         = Inr batch" and "batch \<noteq> []"
  shows "Request (SyncFileActivities batch) \<in> set (snd (syncCycle database net zone n1 n2 logs st))"
proof -
  obtain s1 c1 where d: "syncDailyStatsPhase database net zone n1 n2 (fst (saveLogs database logs st)) = (True, s1, c1)"
    using assms(1) by (cases "syncDailyStatsPhase database net zone n1 n2 (fst (saveLogs database logs st))") auto
  with assms(2) have f: "getAggregatedActivities database s1 50 = Inr batch" by simp
  from syncCycle_calls [OF d] syncFileActivitiesPhase_sends [OF f assms(3), of net]
  show ?thesis by auto
qed


text \<open>
  Claim C5, corrected. In a cycle whose daily phase ran to its end, leaving the store \<open>s1\<close>
  from which \<^verbatim>\<open>getAggregatedActivities(50)\<close> gives a non-empty batch:

  \<^item> the batch is sent with \<^verbatim>\<open>syncFileActivities\<close>;
  \<^item> \<^verbatim>\<open>deleteAggregatedActivities\<close> is called in the cycle if and only if the request
    resolved, whatever the \<^verbatim>\<open>success\<close> field of the reply says, and then with exactly
    that batch;
  \<^item> when the request resolved and the deletion succeeds, the store after the phase is
    the result of the deletion;
  \<^item> when the request was rejected, the phase leaves the store as it was and the cycle
    ends with the store that the commit phase leaves from \<open>s1\<close>; if moreover the store
    keeps its pending summaries, every next cycle whose daily phase runs to its end
    sends the same batch again, whatever it flushes and whatever the network answers.
\<close>

theorem C5_ack_gated_deletion:
  "syncDailyStatsPhase database net zone now now2 (fst (saveLogs database logs st)) = (True, s1, c1)
   \<and> getAggregatedActivities database s1 50 = Inr batch \<and> batch \<noteq> []
   \<longrightarrow> Request (SyncFileActivities batch) \<in> set (snd (syncCycle database net zone now now2 logs st))
     \<and> (\<forall>b. DeleteAggregatedActivities b \<in> set (snd (syncCycle database net zone now now2 logs st))
              \<longleftrightarrow> net (SyncFileActivities batch) \<noteq> Rejected \<and> b = batch)
     \<and> (\<forall>success s2. net (SyncFileActivities batch) = Resolved success
                       \<and> deleteAggregatedActivities database s1 batch = Inr s2
          \<longrightarrow> fst (snd (syncFileActivitiesPhase database net s1)) = s2)
     \<and> (net (SyncFileActivities batch) = Rejected
          \<longrightarrow> fst (snd (syncFileActivitiesPhase database net s1)) = s1
            \<and> fst (syncCycle database net zone now now2 logs st)
                = fst (snd (syncCommitsPhase database net s1))
            \<and> (\<forall>net' zone' t t2 logs'.
                  keepsPendingSummaries database
                  \<and> fst (syncDailyStatsPhase database net' zone' t t2
                           (fst (saveLogs database logs'
                                   (fst (syncCycle database net zone now now2 logs st)))))
                  \<longrightarrow> Request (SyncFileActivities batch)
                        \<in> set (snd (syncCycle database net' zone' t t2 logs'
                                      (fst (syncCycle database net zone now now2 logs st))))))"
proof
  assume a: "syncDailyStatsPhase database net zone now now2 (fst (saveLogs database logs st)) = (True, s1, c1)
   \<and> getAggregatedActivities database s1 50 = Inr batch \<and> batch \<noteq> []"
  then have daily: "syncDailyStatsPhase database net zone now now2 (fst (saveLogs database logs st)) = (True, s1, c1)"
    and fetch: "getAggregatedActivities database s1 50 = Inr batch" and ne: "batch \<noteq> []"
    by blast+
  from syncCycle_calls [OF daily] obtain c3
    where calls: "snd (syncCycle database net zone now now2 logs st) =
           snd (saveLogs database logs st) @ c1 @ snd (snd (syncFileActivitiesPhase database net s1)) @ c3"
      and c3: "\<forall>b. DeleteAggregatedActivities b \<notin> set c3"
    by blast
  from daily have c1: "\<forall>b. DeleteAggregatedActivities b \<notin> set c1"
    using syncDailyStatsPhase_no_delete [of _ database net zone now now2 "fst (saveLogs database logs st)"]
    by simp
  from syncFileActivitiesPhase_sends [OF fetch ne, of net] calls
  have sent: "Request (SyncFileActivities batch) \<in> set (snd (syncCycle database net zone now now2 logs st))"
    by auto
  have del: "\<forall>b. DeleteAggregatedActivities b \<in> set (snd (syncCycle database net zone now now2 logs st))
              \<longleftrightarrow> net (SyncFileActivities batch) \<noteq> Rejected \<and> b = batch"
    using calls c1 c3 saveLogs_no_delete [of _ database logs st]
      syncFileActivitiesPhase_delete_iff [OF fetch ne, of _ net]
    by auto
  have ack: "\<forall>success s2. net (SyncFileActivities batch) = Resolved success
                       \<and> deleteAggregatedActivities database s1 batch = Inr s2
          \<longrightarrow> fst (snd (syncFileActivitiesPhase database net s1)) = s2"
    using fetch ne by (simp add: syncFileActivitiesPhase_resolved)
  have nack: "net (SyncFileActivities batch) = Rejected
          \<longrightarrow> fst (snd (syncFileActivitiesPhase database net s1)) = s1
            \<and> fst (syncCycle database net zone now now2 logs st)
                = fst (snd (syncCommitsPhase database net s1))
            \<and> (\<forall>net' zone' t t2 logs'.
                  keepsPendingSummaries database
                  \<and> fst (syncDailyStatsPhase database net' zone' t t2
                           (fst (saveLogs database logs'
                                   (fst (syncCycle database net zone now now2 logs st)))))
                  \<longrightarrow> Request (SyncFileActivities batch)
                        \<in> set (snd (syncCycle database net' zone' t t2 logs'
                                      (fst (syncCycle database net zone now now2 logs st)))))"
  proof
    assume rej: "net (SyncFileActivities batch) = Rejected"
    have kept: "fst (snd (syncFileActivitiesPhase database net s1)) = s1"
      using fetch ne rej by (simp add: syncFileActivitiesPhase_rejected)
    have final: "fst (syncCycle database net zone now now2 logs st)
                = fst (snd (syncCommitsPhase database net s1))"
      using syncCycle_store_rejected [OF daily fetch ne rej] .
    have again: "Request (SyncFileActivities batch)
                   \<in> set (snd (syncCycle database net' zone' t t2 logs'
                                 (fst (syncCycle database net zone now now2 logs st))))"
      if k: "keepsPendingSummaries database"
        and d: "fst (syncDailyStatsPhase database net' zone' t t2
                       (fst (saveLogs database logs'
                               (fst (syncCycle database net zone now now2 logs st)))))"
      for net' zone' t t2 logs'
    proof -
      have "getAggregatedActivities database
              (fst (snd (syncDailyStatsPhase database net' zone' t t2
                 (fst (saveLogs database logs' (fst (syncCycle database net zone now now2 logs st))))))) 50
            = getAggregatedActivities database (fst (snd (syncCommitsPhase database net s1))) 50"
        using k by (simp add: syncDailyStatsPhase_keeps saveLogs_keeps final)
      also have "\<dots> = Inr batch"
        using k fetch by (simp add: syncCommitsPhase_keeps)
      finally show ?thesis
        using syncCycle_sends [OF d _ ne] by simp
    qed
    from kept final again
    show "fst (snd (syncFileActivitiesPhase database net s1)) = s1
            \<and> fst (syncCycle database net zone now now2 logs st)
                = fst (snd (syncCommitsPhase database net s1))
            \<and> (\<forall>net' zone' t t2 logs'.
                  keepsPendingSummaries database
                  \<and> fst (syncDailyStatsPhase database net' zone' t t2
                           (fst (saveLogs database logs'
                                   (fst (syncCycle database net zone now now2 logs st)))))
                  \<longrightarrow> Request (SyncFileActivities batch)
                        \<in> set (snd (syncCycle database net' zone' t t2 logs'
                                      (fst (syncCycle database net zone now now2 logs st)))))"
      by blast
  qed
  from sent del ack nack
  show "Request (SyncFileActivities batch) \<in> set (snd (syncCycle database net zone now now2 logs st))
     \<and> (\<forall>b. DeleteAggregatedActivities b \<in> set (snd (syncCycle database net zone now now2 logs st))
              \<longleftrightarrow> net (SyncFileActivities batch) \<noteq> Rejected \<and> b = batch)
     \<and> (\<forall>success s2. net (SyncFileActivities batch) = Resolved success
                       \<and> deleteAggregatedActivities database s1 batch = Inr s2
          \<longrightarrow> fst (snd (syncFileActivitiesPhase database net s1)) = s2)
     \<and> (net (SyncFileActivities batch) = Rejected
          \<longrightarrow> fst (snd (syncFileActivitiesPhase database net s1)) = s1
            \<and> fst (syncCycle database net zone now now2 logs st)
                = fst (snd (syncCommitsPhase database net s1))
            \<and> (\<forall>net' zone' t t2 logs'.
                  keepsPendingSummaries database
                  \<and> fst (syncDailyStatsPhase database net' zone' t t2
                           (fst (saveLogs database logs'
                                   (fst (syncCycle database net zone now now2 logs st)))))
                  \<longrightarrow> Request (SyncFileActivities batch)
                        \<in> set (snd (syncCycle database net' zone' t t2 logs'
                                      (fst (syncCycle database net zone now now2 logs st))))))"
    by blast
qed

text \<open>
  The theorem at a store with three pending summaries. With the network down the cycle
  sends the three and deletes nothing, the store is unchanged, and the next cycle, which
  flushes a new log, sends the three again; with the network up the cycle deletes the three.
\<close>

lemma storeOfThree_phases:
  "syncDailyStatsPhase listDatabase net zone 0 0 (fst (saveLogs listDatabase [] storeOfThree))
     = (True, storeOfThree, [])"
  "getAggregatedActivities listDatabase storeOfThree 50 = Inr threeSummaries"
  "threeSummaries \<noteq> []" "length threeSummaries = 3"
  by (simp_all add: syncDailyStatsPhase_def listDatabase_def storeOfThree_def emptyStore_def
        threeSummaries_def Let_def)

lemma storeOfThree_commits:
  "fst (snd (syncCommitsPhase listDatabase net storeOfThree)) = storeOfThree"
  by (simp add: syncCommitsPhase_def listDatabase_def storeOfThree_def emptyStore_def)

lemma storeOfThree_next_daily:
  "fst (syncDailyStatsPhase listDatabase net zone t t2
          (fst (saveLogs listDatabase [logOf 1749513600000 0] storeOfThree)))"
  by (simp add: syncDailyStatsPhase_def listDatabase_def storeOfThree_def emptyStore_def Let_def)

lemma listDatabase_keeps: "keepsPendingSummaries listDatabase"
  by (auto simp: keepsPendingSummaries_def listDatabase_def)

lemma storeOfThree_delete:
  "deleteAggregatedActivities listDatabase storeOfThree threeSummaries
     = Inr (storeOfThree\<lparr>fileSummaries := []\<rparr>)"
  by (simp add: listDatabase_def storeOfThree_def emptyStore_def)

theorem C5_ack_gated_deletion_witness:
  "length threeSummaries = 3
   \<and> Request (SyncFileActivities threeSummaries)
        \<in> set (snd (syncCycle listDatabase netDown utc 0 0 [] storeOfThree))
   \<and> DeleteAggregatedActivities threeSummaries
        \<notin> set (snd (syncCycle listDatabase netDown utc 0 0 [] storeOfThree))
   \<and> fst (syncCycle listDatabase netDown utc 0 0 [] storeOfThree) = storeOfThree
   \<and> Request (SyncFileActivities threeSummaries)
        \<in> set (snd (syncCycle listDatabase netUp utc 300000 300000 [logOf 1749513600000 0]
                       (fst (syncCycle listDatabase netDown utc 0 0 [] storeOfThree))))
   \<and> DeleteAggregatedActivities threeSummaries
        \<in> set (snd (syncCycle listDatabase netUp utc 0 0 [] storeOfThree))
   \<and> fst (snd (syncFileActivitiesPhase listDatabase netUp storeOfThree))
       = storeOfThree\<lparr>fileSummaries := []\<rparr>"
proof -
  have down: "netDown (SyncFileActivities threeSummaries) = Rejected"
    and up: "netUp (SyncFileActivities threeSummaries) = Resolved True"
    by (simp_all add: netDown_def netUp_def)
  note d = C5_ack_gated_deletion [where database = listDatabase and net = netDown and zone = utc
         and now = 0 and ?now2.0 = 0 and logs = "[]" and st = storeOfThree and ?s1.0 = storeOfThree
         and ?c1.0 = "[]" and batch = threeSummaries, rule_format,
         OF conjI [OF storeOfThree_phases(1) conjI [OF storeOfThree_phases(2) storeOfThree_phases(3)]]]
  note u = C5_ack_gated_deletion [where database = listDatabase and net = netUp and zone = utc
         and now = 0 and ?now2.0 = 0 and logs = "[]" and st = storeOfThree and ?s1.0 = storeOfThree
         and ?c1.0 = "[]" and batch = threeSummaries, rule_format,
         OF conjI [OF storeOfThree_phases(1) conjI [OF storeOfThree_phases(2) storeOfThree_phases(3)]]]
  from d down have d1: "Request (SyncFileActivities threeSummaries)
             \<in> set (snd (syncCycle listDatabase netDown utc 0 0 [] storeOfThree))"
    and d2: "DeleteAggregatedActivities threeSummaries
             \<notin> set (snd (syncCycle listDatabase netDown utc 0 0 [] storeOfThree))"
    and d3: "fst (syncCycle listDatabase netDown utc 0 0 [] storeOfThree)
               = fst (snd (syncCommitsPhase listDatabase netDown storeOfThree))"
    by blast+
  from d3 have d4: "fst (syncCycle listDatabase netDown utc 0 0 [] storeOfThree) = storeOfThree"
    by (simp add: storeOfThree_commits)
  have "fst (syncDailyStatsPhase listDatabase netUp utc 300000 300000
          (fst (saveLogs listDatabase [logOf 1749513600000 0]
             (fst (syncCycle listDatabase netDown utc 0 0 [] storeOfThree)))))"
    by (simp only: d4 storeOfThree_next_daily)
  with d down listDatabase_keeps
  have d5: "Request (SyncFileActivities threeSummaries)
        \<in> set (snd (syncCycle listDatabase netUp utc 300000 300000 [logOf 1749513600000 0]
                       (fst (syncCycle listDatabase netDown utc 0 0 [] storeOfThree))))"
    by blast
  from u up have u1: "DeleteAggregatedActivities threeSummaries
             \<in> set (snd (syncCycle listDatabase netUp utc 0 0 [] storeOfThree))"
    by simp
  from u up storeOfThree_delete
  have u2: "fst (snd (syncFileActivitiesPhase listDatabase netUp storeOfThree))
       = storeOfThree\<lparr>fileSummaries := []\<rparr>"
    by blast
  from storeOfThree_phases(4) d1 d2 d4 d5 u1 u2 show ?thesis by blast
qed

text \<open>
  The claim as the specification words it fails where the remote call answers and reports
  no success: the reply \<^verbatim>\<open>{success: false}\<close> resolves the request, the client returns
  \<^verbatim>\<open>true\<close> without reading it, and the cycle deletes the three summaries.
\<close>

theorem C5_success_field_counterexample:
  "netRefusing (SyncFileActivities threeSummaries) = Resolved False
   \<and> getAggregatedActivities listDatabase storeOfThree 50 = Inr threeSummaries
   \<and> snd (syncCycle listDatabase netRefusing utc 0 0 [] storeOfThree)
       = [Request (SyncFileActivities threeSummaries), DeleteAggregatedActivities threeSummaries,
          UpdateStatus ''CodeChrono: Synced'']
   \<and> fileSummaries (fst (syncCycle listDatabase netRefusing utc 0 0 [] storeOfThree)) = []"
  by (simp add: syncCycle_def syncDailyStatsPhase_def syncFileActivitiesPhase_def syncCommitsPhase_def
       syncFileActivities_def requestOk_def listDatabase_def storeOfThree_def emptyStore_def
       threeSummaries_def netRefusing_def Let_def)

text \<open>
  Why the resend needs a store that keeps its pending summaries: on the store that derives
  them from the raw rows, the cycle after a rejected request flushes a log of the same
  file and sends a batch with another total.
\<close>

lemma derivingDatabase_resend:
  "snd (syncCycle derivingDatabase netDown utc 0 0 [] storeOfOneRow)
     = [Request (SyncFileActivities (summariesOf [logOf 1749513600000 0])),
        UpdateStatus ''CodeChrono: Offline'']
   \<and> snd (syncCycle derivingDatabase netDown utc 300000 300000 [logOf 1749513603000 3000]
            (fst (syncCycle derivingDatabase netDown utc 0 0 [] storeOfOneRow)))
     = [InsertActivity (logOf 1749513603000 3000),
        Request (SyncFileActivities (summariesOf [logOf 1749513600000 0, logOf 1749513603000 3000])),
        UpdateStatus ''CodeChrono: Offline'']
   \<and> summariesOf [logOf 1749513600000 0, logOf 1749513603000 3000]
       \<noteq> summariesOf [logOf 1749513600000 0]"
  by (simp add: syncCycle_def syncDailyStatsPhase_def syncFileActivitiesPhase_def syncCommitsPhase_def
       syncFileActivities_def requestOk_def derivingDatabase_def listDatabase_def storeOfOneRow_def
       emptyStore_def netDown_def Let_def summariesOf_def sameGroup_def logOf_def)

section \<open>The sync cycle: daily aggregates\<close>

text \<open>
  The order of date strings. On strings of the same length the comparison of a
  concatenation is lexicographic in its parts; a number printed with \<open>w\<close> digits compares
  as the number does; so two dates \<^verbatim>\<open>YYYY-MM-DD\<close> compare as the calendar dates do.
\<close>

lemma jsStringLess_append:
  "length a = length b \<Longrightarrow>
     jsStringLess (a @ c) (b @ e) \<longleftrightarrow> jsStringLess a b \<or> (a = b \<and> jsStringLess c e)"
proof (induction a arbitrary: b)
  case Nil
  then show ?case by simp
next
  case (Cons x a)
  then obtain y b' where b: "b = y # b'" and l: "length a = length b'" by (cases b) auto
  from Cons.IH [OF l] show ?case unfolding b by auto
qed

lemma jsStringLess_same_length_irrefl:
  "\<not> jsStringLess a a"
  by (induction a) auto

lemma length_decimal: "length (decimal w n) = w"
  by (induction w arbitrary: n) auto

lemma digit_code: "(of_char (char_of (48 + n mod 10 :: nat)) :: nat) = 48 + n mod 10"
proof -
  have "48 + n mod 10 < 256" by (simp add: less_le_trans [OF pos_mod_bound] add.commute) 
  then show ?thesis by (simp add: of_char_of)
qed

lemma digit_eq: "char_of (48 + a mod 10 :: nat) = char_of (48 + b mod 10 :: nat) \<longleftrightarrow> a mod 10 = b mod 10"
proof
  assume "char_of (48 + a mod 10) = char_of (48 + b mod 10 :: nat)"
  then have "(of_char (char_of (48 + a mod 10)) :: nat) = of_char (char_of (48 + b mod 10))" by simp
  then show "a mod 10 = b mod 10" by (simp add: digit_code)
qed simp

lemma decimal_order:
  "(jsStringLess (decimal w a) (decimal w b) \<longleftrightarrow> a mod 10 ^ w < b mod 10 ^ w)
   \<and> (decimal w a = decimal w b \<longleftrightarrow> a mod 10 ^ w = b mod 10 ^ w)"
proof (induction w arbitrary: a b)
  case 0
  then show ?case by simp
next
  case (Suc w)
  have ma: "a mod 10 ^ Suc w = 10 * (a div 10 mod 10 ^ w) + a mod 10"
    and mb: "b mod 10 ^ Suc w = 10 * (b div 10 mod 10 ^ w) + b mod 10"
    by (simp_all add: mod_mult2_eq)
  have la: "a mod 10 < 10" and lb: "b mod 10 < 10" by simp_all
  have less: "jsStringLess (decimal (Suc w) a) (decimal (Suc w) b)
      \<longleftrightarrow> a div 10 mod 10 ^ w < b div 10 mod 10 ^ w
          \<or> (a div 10 mod 10 ^ w = b div 10 mod 10 ^ w \<and> a mod 10 < b mod 10)"
    using Suc.IH [of "a div 10" "b div 10"]
    by (simp add: jsStringLess_append length_decimal digit_code)
  have eq: "decimal (Suc w) a = decimal (Suc w) b
      \<longleftrightarrow> a div 10 mod 10 ^ w = b div 10 mod 10 ^ w \<and> a mod 10 = b mod 10"
    using Suc.IH [of "a div 10" "b div 10"]
    by (simp add: digit_eq)
  have ar: "\<And>A B p q :: nat. p < 10 \<Longrightarrow> q < 10 \<Longrightarrow>
      (10 * A + p < 10 * B + q \<longleftrightarrow> A < B \<or> (A = B \<and> p < q))
      \<and> (10 * A + p = 10 * B + q \<longleftrightarrow> A = B \<and> p = q)"
    by arith
  from ar [OF la lb] show ?case unfolding less eq ma mb by blast
qed

lemma isoDate_order:
  assumes "y < 10000" "m < 100" "d < 100" "y' < 10000" "m' < 100" "d' < 100"
  shows "jsStringLess (isoDate y m d) (isoDate y' m' d')
           \<longleftrightarrow> y < y' \<or> (y = y' \<and> (m < m' \<or> (m = m' \<and> d < d')))"
proof -
  have dash: "\<And>c e. jsStringLess (''-'' @ c) (''-'' @ e) = jsStringLess c e" by simp
  have "jsStringLess (isoDate y m d) (isoDate y' m' d')
     \<longleftrightarrow> jsStringLess (decimal 4 y) (decimal 4 y')
         \<or> (decimal 4 y = decimal 4 y'
            \<and> (jsStringLess (decimal 2 m) (decimal 2 m')
               \<or> (decimal 2 m = decimal 2 m' \<and> jsStringLess (decimal 2 d) (decimal 2 d'))))"
    unfolding isoDate_def
    by (simp only: jsStringLess_append [of "decimal w a" "decimal w b" for w a b, OF trans [OF length_decimal length_decimal [symmetric]]] dash)
  then show ?thesis
    using assms decimal_order [of 4 y y'] decimal_order [of 2 m m'] decimal_order [of 2 d d']
    by simp
qed

lemma toISODate_isoDate:
  assumes "civilFromDays (t div msPerDay) = (int y, int m, int d)" and "y < 10000"
  shows "toISODate t = isoDate y m d"
  using assms by (simp add: toISODate_def isoDate_def)


text \<open>
  The dates of the instants of 2025-06-10 (UTC day 20249) and of the instants one day
  before them.
\<close>

lemma civil_20248: "civilFromDays 20248 = (2025, 6, 9)"
  by code_simp

lemma civil_20249: "civilFromDays 20249 = (2025, 6, 10)"
  by code_simp

lemma decimal_2025: "decimal 4 2025 = ''2025''" and decimal_06: "decimal 2 6 = ''06''"
  and decimal_09: "decimal 2 9 = ''09''" and decimal_10: "decimal 2 10 = ''10''"
  by code_simp+

lemma toISODate_20248: "t div msPerDay = 20248 \<Longrightarrow> toISODate t = ''2025-06-09''"
  by (simp add: toISODate_def civil_20248 decimal_2025 decimal_06 decimal_09)

lemma toISODate_20249: "t div msPerDay = 20249 \<Longrightarrow> toISODate t = ''2025-06-10''"
  by (simp add: toISODate_def civil_20249 decimal_2025 decimal_06 decimal_10)

lemma day_of:
  fixes now m :: int
  assumes "0 < m" and "d * m \<le> now" and "now < (d + 1) * m"
  shows "now div m = d"
proof -
  define r where "r = now - d * m"
  from assms have r: "0 \<le> r" "r < m" by (simp_all add: r_def algebra_simps)
  have "now = r + d * m" by (simp add: r_def)
  then have "now div m = (r + d * m) div m" by simp
  also from assms(1) have "\<dots> = r div m + d" by simp
  also from r have "\<dots> = d" by simp
  finally show ?thesis .
qed

lemma day_before:
  fixes now m :: int
  assumes "0 < m"
  shows "(now - m) div m = now div m - 1"
proof -
  have "now - m = now + (- 1) * m" by simp
  then have "(now - m) div m = (now + (- 1) * m) div m" by simp
  also from assms have "\<dots> = now div m + (- 1)" by (simp only: div_mult_self1 [OF less_imp_neq [THEN not_sym]])
  finally show ?thesis by simp
qed

lemma June10:
  assumes "20249 * msPerDay \<le> now" and "now < 20250 * msPerDay"
  shows "toISODate now = ''2025-06-10''" and "toISODate (now - msPerDay) = ''2025-06-09''"
proof -
  have pos: "0 < msPerDay" by (simp add: msPerDay_def)
  from day_of [OF pos, of 20249 now] assms have d: "now div msPerDay = 20249" by simp
  then show "toISODate now = ''2025-06-10''" by (rule toISODate_20249)
  from day_before [OF pos, of now] d have "(now - msPerDay) div msPerDay = 20248" by simp
  then show "toISODate (now - msPerDay) = ''2025-06-09''" by (rule toISODate_20248)
qed

text \<open>
  When the offset of the zone at the local time one day back is the offset at the instant
  of the run, \<^verbatim>\<open>setDate(getDate() - 1)\<close> moves the instant back by 24 hours.
\<close>

lemma setDateBack_same_offset:
  assumes "offsetAtLocal zone (localTime zone now - msPerDay) = offsetAtUTC zone now"
  shows "setDateBack zone now 1 = now - msPerDay"
  using assms by (simp add: setDateBack_def utcOfLocal_def localTime_def)

lemma isoDateDaysAgo_same_offset:
  assumes "offsetAtLocal zone (localTime zone now - msPerDay) = offsetAtUTC zone now"
  shows "isoDateDaysAgo zone now 1 = toISODate (now - msPerDay)"
  by (simp only: isoDateDaysAgo_def setDateBack_same_offset [OF assms])

text \<open>
  The only requests for daily aggregates of a cycle are those of its first phase, which
  sends the fetched aggregates that pass the filter.
\<close>

lemma syncDailyStatsPhase_request:
  assumes "Request (SyncDailyStats batch) \<in> set (snd (snd (syncDailyStatsPhase database net zone now now2 st)))"
  shows "\<exists>stats. getDailyAggregatedActivities database st 30 = Inr stats
           \<and> batch = filter (\<lambda>stat. jsStringLess (date stat) (isoDateDaysAgo zone now 1)) stats"
  using assms
  by (auto simp: syncDailyStatsPhase_def syncDailyStats_def Let_def split: sum.splits if_splits)

lemma syncDailyStatsPhase_sends:
  assumes "getDailyAggregatedActivities database st 30 = Inr stats"
    and "filter (\<lambda>stat. jsStringLess (date stat) (isoDateDaysAgo zone now 1)) stats \<noteq> []"
  shows "Request (SyncDailyStats (filter (\<lambda>stat. jsStringLess (date stat) (isoDateDaysAgo zone now 1)) stats))
           \<in> set (snd (snd (syncDailyStatsPhase database net zone now now2 st)))"
  using assms
  by (auto simp: syncDailyStatsPhase_def syncDailyStats_def Let_def split: sum.splits)

lemma syncFileActivitiesPhase_no_daily:
  "Request (SyncDailyStats batch) \<notin> set (snd (snd (syncFileActivitiesPhase database net st)))"
  by (auto simp: syncFileActivitiesPhase_def syncFileActivities_def Let_def split: sum.splits)

lemma syncCommitsPhase_no_daily:
  "Request (SyncDailyStats batch) \<notin> set (snd (snd (syncCommitsPhase database net st)))"
  by (auto simp: syncCommitsPhase_def syncCommits_def Let_def split: sum.splits)

lemma syncCycle_daily_request:
  "Request (SyncDailyStats batch) \<in> set (snd (syncCycle database net zone now now2 logs st))
     \<longleftrightarrow> Request (SyncDailyStats batch)
           \<in> set (snd (snd (syncDailyStatsPhase database net zone now now2 (fst (saveLogs database logs st)))))"
  by (auto simp: syncCycle_def Let_def saveLogs_calls syncFileActivitiesPhase_no_daily
        syncCommitsPhase_no_daily)

lemma syncCycle_sent_only:
  assumes "Request (SyncDailyStats batch) \<in> set (snd (syncCycle database net zone now now2 logs st))"
    and "stat \<in> set batch"
  shows "jsStringLess (date stat) (isoDateDaysAgo zone now 1)"
  using assms syncDailyStatsPhase_request [of batch database net zone now now2 "fst (saveLogs database logs st)"]
  by (auto simp: syncCycle_daily_request)

lemma syncCycle_sent:
  assumes "getDailyAggregatedActivities database (fst (saveLogs database logs st)) 30 = Inr stats"
    and "stat \<in> set stats" and "jsStringLess (date stat) (isoDateDaysAgo zone now 1)"
  shows "\<exists>batch. Request (SyncDailyStats batch) \<in> set (snd (syncCycle database net zone now now2 logs st))
                  \<and> stat \<in> set batch"
proof -
  let ?batch = "filter (\<lambda>stat. jsStringLess (date stat) (isoDateDaysAgo zone now 1)) stats"
  from assms(2,3) have in_batch: "stat \<in> set ?batch" by simp
  then have "?batch \<noteq> []" by (metis empty_iff list.set(1))
  with assms(1) syncDailyStatsPhase_sends [of database "fst (saveLogs database logs st)" stats zone now net now2]
  have "Request (SyncDailyStats ?batch) \<in> set (snd (syncCycle database net zone now now2 logs st))"
    by (simp add: syncCycle_daily_request)
  with in_batch show ?thesis by blast
qed

text \<open>
  Claim C6, corrected. Take a cycle in a zone whose offset from UTC, at the local time one
  day before the run, is the offset at the instant of the run. Let yesterday be the UTC
  date of the instant 24 hours before \<^verbatim>\<open>new Date()\<close>, which is the date of the day before
  the UTC day of the run. Then:

  \<^item> every daily aggregate that the cycle sends has a date string strictly smaller than
    yesterday;
  \<^item> every aggregate that the store gives for the limit 30 and whose date string is
    strictly smaller than yesterday is sent;
  \<^item> on the calendar: a sent aggregate dated year \<open>y\<close>, month \<open>m\<close>, day \<open>d\<close> is strictly
    earlier than the day before the UTC day of the run;
  \<^item> when the run is at any instant of 2025-06-10 (UTC), yesterday is 2025-06-09: every
    fetched aggregate dated 2025-06-08 is sent, and no aggregate dated 2025-06-09 is sent.
\<close>

theorem C6_completed_days:
  "offsetAtLocal zone (localTime zone now - msPerDay) = offsetAtUTC zone now
   \<longrightarrow> (\<forall>batch. Request (SyncDailyStats batch) \<in> set (snd (syncCycle database net zone now now2 logs st))
          \<longrightarrow> (\<forall>stat \<in> set batch. jsStringLess (date stat) (toISODate (now - msPerDay))))
     \<and> (\<forall>stats. getDailyAggregatedActivities database (fst (saveLogs database logs st)) 30 = Inr stats
          \<longrightarrow> (\<forall>stat \<in> set stats. jsStringLess (date stat) (toISODate (now - msPerDay))
                \<longrightarrow> (\<exists>batch. Request (SyncDailyStats batch)
                               \<in> set (snd (syncCycle database net zone now now2 logs st))
                        \<and> stat \<in> set batch)))
     \<and> (\<forall>batch stat y m d y' m' d'.
            Request (SyncDailyStats batch) \<in> set (snd (syncCycle database net zone now now2 logs st))
            \<and> stat \<in> set batch
            \<and> date stat = isoDate y m d \<and> y < 10000 \<and> m < 100 \<and> d < 100
            \<and> civilFromDays (now div msPerDay - 1) = (int y', int m', int d')
            \<and> y' < 10000 \<and> m' < 100 \<and> d' < 100
          \<longrightarrow> y < y' \<or> (y = y' \<and> (m < m' \<or> (m = m' \<and> d < d'))))
     \<and> (20249 * msPerDay \<le> now \<and> now < 20250 * msPerDay
          \<longrightarrow> toISODate now = ''2025-06-10'' \<and> toISODate (now - msPerDay) = ''2025-06-09''
            \<and> (\<forall>stats. getDailyAggregatedActivities database (fst (saveLogs database logs st)) 30 = Inr stats
                  \<longrightarrow> (\<forall>stat \<in> set stats. date stat = ''2025-06-08''
                         \<longrightarrow> (\<exists>batch. Request (SyncDailyStats batch)
                                        \<in> set (snd (syncCycle database net zone now now2 logs st))
                                 \<and> stat \<in> set batch)))
            \<and> (\<forall>stat batch. date stat = ''2025-06-09''
                  \<and> Request (SyncDailyStats batch) \<in> set (snd (syncCycle database net zone now now2 logs st))
                  \<longrightarrow> stat \<notin> set batch))"
proof
  assume same: "offsetAtLocal zone (localTime zone now - msPerDay) = offsetAtUTC zone now"
  note y = isoDateDaysAgo_same_offset [OF same]
  have only: "jsStringLess (date stat) (toISODate (now - msPerDay))"
    if "Request (SyncDailyStats batch) \<in> set (snd (syncCycle database net zone now now2 logs st))"
      and "stat \<in> set batch" for batch stat
    using syncCycle_sent_only [OF that] by (simp only: y)
  have sent: "\<exists>batch. Request (SyncDailyStats batch) \<in> set (snd (syncCycle database net zone now now2 logs st))
                  \<and> stat \<in> set batch"
    if "getDailyAggregatedActivities database (fst (saveLogs database logs st)) 30 = Inr stats"
      and "stat \<in> set stats" and "jsStringLess (date stat) (toISODate (now - msPerDay))"
    for stats stat
    using syncCycle_sent [OF that(1,2), of zone now net now2] that(3) by (simp only: y)
  have calendar: "y < y' \<or> (y = y' \<and> (m < m' \<or> (m = m' \<and> d < d')))"
    if r: "Request (SyncDailyStats batch) \<in> set (snd (syncCycle database net zone now now2 logs st))"
      and s: "stat \<in> set batch"
      and d: "date stat = isoDate y m d" and b: "y < 10000" "m < 100" "d < 100"
      and c: "civilFromDays (now div msPerDay - 1) = (int y', int m', int d')"
      and b': "y' < 10000" "m' < 100" "d' < 100"
    for batch stat y m d y' m' d'
  proof -
    have "0 < msPerDay" by (simp add: msPerDay_def)
    from day_before [OF this, of now] c
    have "civilFromDays ((now - msPerDay) div msPerDay) = (int y', int m', int d')" by simp
    from toISODate_isoDate [OF this b'(1)] only [OF r s] d
    have "jsStringLess (isoDate y m d) (isoDate y' m' d')" by simp
    with isoDate_order [OF b b'] show ?thesis by simp
  qed
  have june: "toISODate now = ''2025-06-10'' \<and> toISODate (now - msPerDay) = ''2025-06-09''
            \<and> (\<forall>stats. getDailyAggregatedActivities database (fst (saveLogs database logs st)) 30 = Inr stats
                  \<longrightarrow> (\<forall>stat \<in> set stats. date stat = ''2025-06-08''
                         \<longrightarrow> (\<exists>batch. Request (SyncDailyStats batch)
                                        \<in> set (snd (syncCycle database net zone now now2 logs st))
                                 \<and> stat \<in> set batch)))
            \<and> (\<forall>stat batch. date stat = ''2025-06-09''
                  \<and> Request (SyncDailyStats batch) \<in> set (snd (syncCycle database net zone now now2 logs st))
                  \<longrightarrow> stat \<notin> set batch)"
    if range: "20249 * msPerDay \<le> now \<and> now < 20250 * msPerDay"
  proof -
    from range have t: "toISODate now = ''2025-06-10''" and p: "toISODate (now - msPerDay) = ''2025-06-09''"
      by (simp_all add: June10)
    have l8: "jsStringLess ''2025-06-08'' ''2025-06-09''" and l9: "\<not> jsStringLess ''2025-06-09'' ''2025-06-09''"
      by simp_all
    have a: "\<exists>batch. Request (SyncDailyStats batch)
                                        \<in> set (snd (syncCycle database net zone now now2 logs st))
                                 \<and> stat \<in> set batch"
      if "getDailyAggregatedActivities database (fst (saveLogs database logs st)) 30 = Inr stats"
        and "stat \<in> set stats" and "date stat = ''2025-06-08''" for stats stat
      using sent [OF that(1,2)] that(3) l8 by (simp only: p)
    have b: "stat \<notin> set batch"
      if "date stat = ''2025-06-09''"
        and "Request (SyncDailyStats batch) \<in> set (snd (syncCycle database net zone now now2 logs st))"
      for stat :: DailyActivitySummary and batch
      using only [OF that(2), of stat] that(1) l9 by (auto simp only: p)
    from t p a b show ?thesis by blast
  qed
  from only sent calendar june
  show "(\<forall>batch. Request (SyncDailyStats batch) \<in> set (snd (syncCycle database net zone now now2 logs st))
          \<longrightarrow> (\<forall>stat \<in> set batch. jsStringLess (date stat) (toISODate (now - msPerDay))))
     \<and> (\<forall>stats. getDailyAggregatedActivities database (fst (saveLogs database logs st)) 30 = Inr stats
          \<longrightarrow> (\<forall>stat \<in> set stats. jsStringLess (date stat) (toISODate (now - msPerDay))
                \<longrightarrow> (\<exists>batch. Request (SyncDailyStats batch)
                               \<in> set (snd (syncCycle database net zone now now2 logs st))
                        \<and> stat \<in> set batch)))
     \<and> (\<forall>batch stat y m d y' m' d'.
            Request (SyncDailyStats batch) \<in> set (snd (syncCycle database net zone now now2 logs st))
            \<and> stat \<in> set batch
            \<and> date stat = isoDate y m d \<and> y < 10000 \<and> m < 100 \<and> d < 100
            \<and> civilFromDays (now div msPerDay - 1) = (int y', int m', int d')
            \<and> y' < 10000 \<and> m' < 100 \<and> d' < 100
          \<longrightarrow> y < y' \<or> (y = y' \<and> (m < m' \<or> (m = m' \<and> d < d'))))
     \<and> (20249 * msPerDay \<le> now \<and> now < 20250 * msPerDay
          \<longrightarrow> toISODate now = ''2025-06-10'' \<and> toISODate (now - msPerDay) = ''2025-06-09''
            \<and> (\<forall>stats. getDailyAggregatedActivities database (fst (saveLogs database logs st)) 30 = Inr stats
                  \<longrightarrow> (\<forall>stat \<in> set stats. date stat = ''2025-06-08''
                         \<longrightarrow> (\<exists>batch. Request (SyncDailyStats batch)
                                        \<in> set (snd (syncCycle database net zone now now2 logs st))
                                 \<and> stat \<in> set batch)))
            \<and> (\<forall>stat batch. date stat = ''2025-06-09''
                  \<and> Request (SyncDailyStats batch) \<in> set (snd (syncCycle database net zone now now2 logs st))
                  \<longrightarrow> stat \<notin> set batch))"
    by (intro conjI allI impI ballI) blast+
qed


text \<open>
  The theorem in Tokyo on 2025-06-10 at 12:00 UTC, on a store with the aggregates of
  2025-06-10, 2025-06-09 and 2025-06-08.
\<close>

lemma storeOfDays_fetch:
  "getDailyAggregatedActivities listDatabase (fst (saveLogs listDatabase [] storeOfDays)) 30
     = Inr [dayStat ''2025-06-10'', dayStat ''2025-06-09'', dayStat ''2025-06-08'']"
  by (simp add: listDatabase_def storeOfDays_def emptyStore_def)

lemma isoDate_June8: "isoDate 2025 6 8 = ''2025-06-08''"
  by code_simp

lemma noonJune10_range: "20249 * msPerDay \<le> noonJune10 \<and> noonJune10 < 20250 * msPerDay"
  by (simp add: msPerDay_def noonJune10_def)

lemma noonJune10_day_before: "civilFromDays (noonJune10 div msPerDay - 1) = (int 2025, int 6, int 9)"
proof -
  have "0 < msPerDay" by (simp add: msPerDay_def)
  from day_of [OF this, of 20249 noonJune10] noonJune10_range
  have "noonJune10 div msPerDay = 20249" by simp
  then show ?thesis by (simp add: civil_20248)
qed

theorem C6_completed_days_witness:
  "offsetAtLocal tokyo (localTime tokyo noonJune10 - msPerDay) = offsetAtUTC tokyo noonJune10
   \<and> toISODate noonJune10 = ''2025-06-10''
   \<and> toISODate (noonJune10 - msPerDay) = ''2025-06-09''
   \<and> (\<exists>batch. Request (SyncDailyStats batch)
                 \<in> set (snd (syncCycle listDatabase netUp tokyo noonJune10 noonJune10 [] storeOfDays))
          \<and> dayStat ''2025-06-08'' \<in> set batch)
   \<and> (\<nexists>batch. Request (SyncDailyStats batch)
                 \<in> set (snd (syncCycle listDatabase netUp tokyo noonJune10 noonJune10 [] storeOfDays))
          \<and> dayStat ''2025-06-09'' \<in> set batch)
   \<and> date (dayStat ''2025-06-08'') = isoDate 2025 6 8
   \<and> civilFromDays (noonJune10 div msPerDay - 1) = (2025, 6, 9)
   \<and> jsStringLess (date (dayStat ''2025-06-08'')) (toISODate (noonJune10 - msPerDay))"
proof -
  have same: "offsetAtLocal tokyo (localTime tokyo noonJune10 - msPerDay) = offsetAtUTC tokyo noonJune10"
    by (simp add: tokyo_def fixedZone_def)
  note inst = C6_completed_days [where database = listDatabase and net = netUp and zone = tokyo
      and now = noonJune10 and ?now2.0 = noonJune10 and logs = "[]" and st = storeOfDays,
      THEN mp, OF same]
  note june = inst [THEN conjunct2, THEN conjunct2, THEN conjunct2, THEN mp, OF noonJune10_range]
  from june have t: "toISODate noonJune10 = ''2025-06-10''"
    and p: "toISODate (noonJune10 - msPerDay) = ''2025-06-09''"
    by blast+
  have d8: "date (dayStat ''2025-06-08'') = ''2025-06-08''"
    and d9: "date (dayStat ''2025-06-09'') = ''2025-06-09''"
    by (simp_all add: dayStat_def)
  from june storeOfDays_fetch d8
  have s8: "\<exists>batch. Request (SyncDailyStats batch)
                 \<in> set (snd (syncCycle listDatabase netUp tokyo noonJune10 noonJune10 [] storeOfDays))
          \<and> dayStat ''2025-06-08'' \<in> set batch"
    by simp
  from june d9
  have s9: "\<nexists>batch. Request (SyncDailyStats batch)
                 \<in> set (snd (syncCycle listDatabase netUp tokyo noonJune10 noonJune10 [] storeOfDays))
          \<and> dayStat ''2025-06-09'' \<in> set batch"
    by blast
  from s8 obtain batch where b: "Request (SyncDailyStats batch)
                 \<in> set (snd (syncCycle listDatabase netUp tokyo noonJune10 noonJune10 [] storeOfDays))"
      "dayStat ''2025-06-08'' \<in> set batch"
    by blast
  from inst [THEN conjunct1] b
  have l: "jsStringLess (date (dayStat ''2025-06-08'')) (toISODate (noonJune10 - msPerDay))"
    by blast
  have i8: "date (dayStat ''2025-06-08'') = isoDate 2025 6 8"
    by (simp only: d8 isoDate_June8)
  from inst [THEN conjunct2, THEN conjunct2, THEN conjunct1, rule_format,
       of batch "dayStat ''2025-06-08''" 2025 6 8 2025 6 9] b i8 noonJune10_day_before
  have "(2025 :: nat) < 2025 \<or> ((2025 :: nat) = 2025 \<and> ((6 :: nat) < 6 \<or> ((6 :: nat) = 6 \<and> (8 :: nat) < 9)))"
    by simp
  from inst [THEN conjunct2, THEN conjunct1] storeOfDays_fetch l
  have "\<exists>batch. Request (SyncDailyStats batch)
                 \<in> set (snd (syncCycle listDatabase netUp tokyo noonJune10 noonJune10 [] storeOfDays))
          \<and> dayStat ''2025-06-08'' \<in> set batch"
    by simp
  from noonJune10_day_before have c: "civilFromDays (noonJune10 div msPerDay - 1) = (2025, 6, 9)"
    by simp
  from same t p s8 s9 i8 c l show ?thesis by blast
qed

text \<open>
  The claim as the specification words it fails in two places. In New York on 2025-03-09
  at 23:30 UTC, the day on which the offset changed, the date of the run is 2025-03-09 on
  the UTC calendar and on the local one, so that yesterday is 2025-03-08; the cycle
  compares with 2025-03-09 and sends the aggregate dated 2025-03-08. In Tokyo on
  2025-06-10 at 05:00, local time, the UTC date is still 2025-06-09: the cycle compares
  with 2025-06-08 and sends nothing, although the store holds the aggregate dated
  2025-06-08.
\<close>

lemma newYork_dates:
  "toISODate eveningOfMarch9 = ''2025-03-09''"
  "toISODate (localTime newYork2025 eveningOfMarch9) = ''2025-03-09''"
  "isoDateDaysAgo newYork2025 eveningOfMarch9 1 = ''2025-03-09''"
  "isoDateDaysAgo newYork2025 eveningOfMarch9 7 = ''2025-03-03''"
  by code_simp+

lemma tokyo_dates:
  "toISODate (localTime tokyo eveningOfJune9) = ''2025-06-10''"
  "isoDateDaysAgo tokyo eveningOfJune9 1 = ''2025-06-08''"
  by code_simp+

theorem C6_calendar_counterexample:
  "toISODate eveningOfMarch9 = ''2025-03-09''
   \<and> toISODate (localTime newYork2025 eveningOfMarch9) = ''2025-03-09''
   \<and> getDailyAggregatedActivities listDatabase storeOfMarch 30
       = Inr [dayStat ''2025-03-09'', dayStat ''2025-03-08'', dayStat ''2025-03-07'']
   \<and> snd (syncCycle listDatabase netUp newYork2025 eveningOfMarch9 eveningOfMarch9 [] storeOfMarch)
       = [Request (SyncDailyStats [dayStat ''2025-03-08'', dayStat ''2025-03-07'']),
          DeleteActivitiesBeforeDate ''2025-03-03'']
   \<and> toISODate (localTime tokyo eveningOfJune9) = ''2025-06-10''
   \<and> getDailyAggregatedActivities listDatabase storeOfDays 30
       = Inr [dayStat ''2025-06-10'', dayStat ''2025-06-09'', dayStat ''2025-06-08'']
   \<and> snd (syncCycle listDatabase netUp tokyo eveningOfJune9 eveningOfJune9 [] storeOfDays) = []"
  by (simp add: newYork_dates tokyo_dates syncCycle_def syncDailyStatsPhase_def
        syncFileActivitiesPhase_def syncCommitsPhase_def syncDailyStats_def requestOk_def
        listDatabase_def storeOfMarch_def storeOfDays_def emptyStore_def netUp_def dayStat_def Let_def)

section \<open>Stopping the tracker\<close>

text \<open>
  \<^verbatim>\<open>stopTracking\<close> disposes the listeners and clears the timer whose handle is in
  \<^verbatim>\<open>syncTimer\<close>. A system that is not tracking, has no listener, no pending timer and no
  suspended cycle is at rest: only \<^verbatim>\<open>startTracking\<close> changes it.
\<close>

lemma stopTracking_unsubscribed:
  "isTracking (tracker sys) \<Longrightarrow> \<not> subscribed (stopTracking sys) \<and> \<not> isTracking (tracker (stopTracking sys))"
  by (simp add: stopTracking_def)

lemma stopTracking_clears:
  "isTracking (tracker sys) \<Longrightarrow> syncTimer (tracker sys) = Some h \<Longrightarrow> h \<notin> set (timers (stopTracking sys))"
  by (simp add: stopTracking_def)

lemma quiescent:
  assumes "\<not> isTracking (tracker sys)" and "\<not> subscribed sys" and "timers sys = []"
    and "inFlight sys = []" and "ev \<noteq> StartTracking"
  shows "step sep g database ev sys = sys"
  using assms by (cases ev) (simp_all add: stopTracking_def syncLoop_complete_def)

lemma stale_timer:
  assumes "isTracking (tracker sys)" and "inFlight sys = [logs]" and "timers sys = []"
  shows "timers (syncLoop_complete database net zone n1 n2 (stopTracking sys)) = [nextTimer sys]"
    and "inFlight (syncLoop_complete database net zone n1 n2 (stopTracking sys)) = []"
    and "\<not> isTracking (tracker (syncLoop_complete database net zone n1 n2 (stopTracking sys)))"
    and "\<not> subscribed (syncLoop_complete database net zone n1 n2 (stopTracking sys))"
    and "step sep g database (TimerFires (nextTimer sys)) (syncLoop_complete database net zone n1 n2 (stopTracking sys))
           = (syncLoop_complete database net zone n1 n2 (stopTracking sys))\<lparr>timers := []\<rparr>"
  using assms
  by (simp_all add: stopTracking_def syncLoop_complete_def syncLoop_begin_def split: option.splits)

text \<open>
  The states of the runs that start tracking at rest are regular, from the new system on.
\<close>

lemma handleActivity_frame:
  "isTracking (fst (handleActivity sep now ed g this)) = isTracking this
   \<and> syncTimer (fst (handleActivity sep now ed g this)) = syncTimer this"
  by (simp add: handleActivity_def Let_def split: option.splits)

lemma removeAll_bound:
  fixes n k :: nat
  shows "n + length xs \<le> k \<Longrightarrow> n + length (removeAll h xs) \<le> k"
  using length_removeAll_less_eq [of h xs] by linarith

lemma step_regular:
  assumes "regular sys"
    and "case ev of StartTracking \<Rightarrow> isTracking (tracker sys) \<or> (timers sys = [] \<and> inFlight sys = [])
         | _ \<Rightarrow> True"
  shows "regular (step sep g database ev sys)"
proof (cases ev)
  case StartTracking
  with assms show ?thesis
    by (auto simp: regular_def startTracking_def syncLoop_begin_def)
next
  case StopTracking
  with assms show ?thesis
    by (auto simp: regular_def stopTracking_def split: option.splits if_splits)
next
  case (Interaction now ed)
  with assms show ?thesis
    by (auto simp: regular_def handleActivity_frame split: option.splits if_splits)
next
  case (TimerFires h)
  with assms show ?thesis
    by (auto simp: regular_def syncLoop_begin_def removeAll_bound split: option.splits if_splits)
next
  case (CycleCompletes net zone n1 n2)
  with assms show ?thesis
    by (auto simp: regular_def syncLoop_complete_def length_Suc_conv split: list.splits option.splits if_splits)
qed

lemma run_regular:
  "regular sys \<Longrightarrow> startsAtRest sep g database evs sys \<Longrightarrow> regular (run sep g database evs sys)"
proof (induction evs arbitrary: sys)
  case Nil
  then show ?case by simp
next
  case (Cons ev evs)
  from Cons.prems have "regular (step sep g database ev sys)"
    by (intro step_regular) simp_all
  with Cons show ?case by simp
qed

lemma newSystem_regular: "regular (newSystem db)"
  by (simp add: regular_def newSystem_def newTracker_def)

text \<open>
  While the tracker is not tracking and is not started, it stays so and no cycle begins:
  the suspended cycles can only complete.
\<close>

lemma step_stopped:
  assumes "\<not> isTracking (tracker sys)" and "ev \<noteq> StartTracking"
  shows "\<not> isTracking (tracker (step sep g database ev sys))
         \<and> suffix (inFlight (step sep g database ev sys)) (inFlight sys)"
  using assms
  by (cases ev)
     (auto simp: stopTracking_def handleActivity_frame syncLoop_begin_def syncLoop_complete_def
        suffix_Cons split: list.splits)

lemma run_stopped:
  "\<not> isTracking (tracker sys) \<Longrightarrow> StartTracking \<notin> set evs \<Longrightarrow>
     \<not> isTracking (tracker (run sep g database evs sys))
     \<and> suffix (inFlight (run sep g database evs sys)) (inFlight sys)"
proof (induction evs arbitrary: sys)
  case Nil
  then show ?case by simp
next
  case (Cons ev evs)
  from Cons.prems have ev: "ev \<noteq> StartTracking" and evs: "StartTracking \<notin> set evs" by auto
  from step_stopped [OF Cons.prems(1) ev, of sep g database]
  have s: "\<not> isTracking (tracker (step sep g database ev sys))"
    and f: "suffix (inFlight (step sep g database ev sys)) (inFlight sys)"
    by blast+
  from Cons.IH [OF s evs] f show ?case
    by (auto intro: suffix_order.trans)
qed


text \<open>
  Claim C8, corrected. Take a state reached from the new system by a run that starts
  tracking only at rest, with the tracker tracking. After \<^verbatim>\<open>stopTracking\<close>:

  \<^item> no notification of the host reaches the tracker;
  \<^item> the timer whose handle is in \<^verbatim>\<open>syncTimer\<close> is no longer pending, and no timer is
    pending at all;
  \<^item> when no cycle is in flight, the system is at rest;
  \<^item> a cycle that is in flight at the moment of stopping is not cancelled: when it
    completes it arms a timer once more (line 244 is unconditional); when this timer
    fires, \<^verbatim>\<open>syncLoop\<close> returns at its guard on \<^verbatim>\<open>isTracking\<close>, no timer is armed, and the
    system is at rest;
  \<^item> whatever happens next, as long as \<^verbatim>\<open>startTracking\<close> is not invoked again the tracker
    is not tracking and no cycle begins: the cycles in flight are among those that were
    in flight at the stop.
\<close>

theorem C8_stop_tracking:
  "startsAtRest sep g database evs (newSystem db)
   \<and> sys = run sep g database evs (newSystem db)
   \<and> isTracking (tracker sys) \<longrightarrow>
     (\<forall>now ed. step sep g database (Interaction now ed) (stopTracking sys) = stopTracking sys)
   \<and> (\<forall>h. syncTimer (tracker sys) = Some h \<longrightarrow> h \<notin> set (timers (stopTracking sys)))
   \<and> timers (stopTracking sys) = []
   \<and> (inFlight sys = [] \<longrightarrow>
         (\<forall>ev. ev \<noteq> StartTracking \<longrightarrow> step sep g database ev (stopTracking sys) = stopTracking sys))
   \<and> (inFlight sys \<noteq> [] \<longrightarrow>
         (\<forall>net zone n1 n2.
            timers (syncLoop_complete database net zone n1 n2 (stopTracking sys)) = [nextTimer sys]
            \<and> (\<forall>ev. ev \<noteq> StartTracking \<longrightarrow>
                  step sep g database ev
                    (step sep g database (TimerFires (nextTimer sys))
                       (syncLoop_complete database net zone n1 n2 (stopTracking sys)))
                  = (syncLoop_complete database net zone n1 n2 (stopTracking sys))\<lparr>timers := []\<rparr>)))
   \<and> (\<forall>evs'. StartTracking \<notin> set evs' \<longrightarrow>
         \<not> isTracking (tracker (run sep g database evs' (stopTracking sys)))
         \<and> suffix (inFlight (run sep g database evs' (stopTracking sys))) (inFlight sys))"
proof
  assume a: "startsAtRest sep g database evs (newSystem db)
   \<and> sys = run sep g database evs (newSystem db)
   \<and> isTracking (tracker sys)"
  then have t: "isTracking (tracker sys)" by blast
  from a have "regular sys" by (simp add: run_regular newSystem_regular)
  with t consider
      (suspended) logs where "inFlight sys = [logs]" and "timers sys = []"
    | (armed) h where "inFlight sys = []" and "syncTimer (tracker sys) = Some h" and "timers sys = [h]"
    by (auto simp: regular_def length_Suc_conv split: option.splits)
  note cases = this
  have 1: "step sep g database (Interaction now ed) (stopTracking sys) = stopTracking sys" for now ed
    using t by (simp add: stopTracking_unsubscribed)
  have 2: "h \<notin> set (timers (stopTracking sys))" if "syncTimer (tracker sys) = Some h" for h
    using t that by (rule stopTracking_clears)
  have 3: "timers (stopTracking sys) = []"
    using cases t by cases (simp_all add: stopTracking_def split: option.splits)
  have 4: "step sep g database ev (stopTracking sys) = stopTracking sys"
    if "inFlight sys = []" and ev: "ev \<noteq> StartTracking" for ev
  proof -
    from that(1) have "inFlight (stopTracking sys) = []" by (simp add: stopTracking_def)
    with 3 t ev show ?thesis by (intro quiescent) (simp_all add: stopTracking_unsubscribed)
  qed
  have 5: "timers (syncLoop_complete database net zone n1 n2 (stopTracking sys)) = [nextTimer sys]
            \<and> (\<forall>ev. ev \<noteq> StartTracking \<longrightarrow>
                  step sep g database ev
                    (step sep g database (TimerFires (nextTimer sys))
                       (syncLoop_complete database net zone n1 n2 (stopTracking sys)))
                  = (syncLoop_complete database net zone n1 n2 (stopTracking sys))\<lparr>timers := []\<rparr>)"
    if "inFlight sys \<noteq> []" for net zone n1 n2
  proof -
    from cases that obtain logs where f: "inFlight sys = [logs]" and p: "timers sys = []"
      by cases simp_all
    let ?done = "syncLoop_complete database net zone n1 n2 (stopTracking sys)"
    from stale_timer(1) [OF t f p] have armed: "timers ?done = [nextTimer sys]" .
    from stale_timer(5) [OF t f p]
    have fired: "step sep g database (TimerFires (nextTimer sys)) ?done = ?done\<lparr>timers := []\<rparr>" .
    have "\<not> isTracking (tracker (?done\<lparr>timers := []\<rparr>))" and "\<not> subscribed (?done\<lparr>timers := []\<rparr>)"
      and "timers (?done\<lparr>timers := []\<rparr>) = []" and "inFlight (?done\<lparr>timers := []\<rparr>) = []"
      using stale_timer(2-4) [OF t f p, of database net zone n1 n2] by simp_all
    from quiescent [OF this]
    have "ev \<noteq> StartTracking \<Longrightarrow> step sep g database ev (?done\<lparr>timers := []\<rparr>) = ?done\<lparr>timers := []\<rparr>" for ev .
    with fired armed show ?thesis by (simp only:) blast
  qed
  have 6: "\<not> isTracking (tracker (run sep g database evs' (stopTracking sys)))
         \<and> suffix (inFlight (run sep g database evs' (stopTracking sys))) (inFlight sys)"
    if "StartTracking \<notin> set evs'" for evs'
  proof -
    from t have "\<not> isTracking (tracker (stopTracking sys))" and "inFlight (stopTracking sys) = inFlight sys"
      by (simp_all add: stopTracking_def)
    with run_stopped [OF this(1) that, of sep g database] show ?thesis by simp
  qed
  from 1 2 3 4 5 6
  show "(\<forall>now ed. step sep g database (Interaction now ed) (stopTracking sys) = stopTracking sys)
   \<and> (\<forall>h. syncTimer (tracker sys) = Some h \<longrightarrow> h \<notin> set (timers (stopTracking sys)))
   \<and> timers (stopTracking sys) = []
   \<and> (inFlight sys = [] \<longrightarrow>
         (\<forall>ev. ev \<noteq> StartTracking \<longrightarrow> step sep g database ev (stopTracking sys) = stopTracking sys))
   \<and> (inFlight sys \<noteq> [] \<longrightarrow>
         (\<forall>net zone n1 n2.
            timers (syncLoop_complete database net zone n1 n2 (stopTracking sys)) = [nextTimer sys]
            \<and> (\<forall>ev. ev \<noteq> StartTracking \<longrightarrow>
                  step sep g database ev
                    (step sep g database (TimerFires (nextTimer sys))
                       (syncLoop_complete database net zone n1 n2 (stopTracking sys)))
                  = (syncLoop_complete database net zone n1 n2 (stopTracking sys))\<lparr>timers := []\<rparr>)))
   \<and> (\<forall>evs'. StartTracking \<notin> set evs' \<longrightarrow>
         \<not> isTracking (tracker (run sep g database evs' (stopTracking sys)))
         \<and> suffix (inFlight (run sep g database evs' (stopTracking sys))) (inFlight sys))"
    by (intro conjI allI impI) blast+
qed

text \<open>
  The claim as the specification words it fails when a cycle is in flight at the moment of
  stopping: after the stop and the completion of the cycle, the tracker is not tracking
  and a sync timer is pending.
\<close>

lemma started_state:
  "isTracking (tracker started)" "inFlight started = [[]]" "timers started = []" "nextTimer started = 0"
  by (simp_all add: started_def newSystem_def newTracker_def startTracking_def syncLoop_begin_def)

lemma idle_state:
  "isTracking (tracker idle)" "inFlight idle = []" "timers idle = [0]" "syncTimer (tracker idle) = Some 0"
  by (simp_all add: idle_def newSystem_def newTracker_def startTracking_def syncLoop_begin_def
       syncLoop_complete_def)

lemma runs_start_at_rest:
  "startsAtRest ''/'' None listDatabase [StartTracking] (newSystem emptyStore)"
  "startsAtRest ''/'' None listDatabase [StartTracking, CycleCompletes netUp utc 0 0] (newSystem emptyStore)"
  by (simp_all add: newSystem_def)

theorem C8_in_flight_counterexample:
  "inFlight started = [[]]
   \<and> \<not> isTracking (tracker (run ''/'' None listDatabase [StopTracking, CycleCompletes netUp utc 0 0] started))
   \<and> timers (run ''/'' None listDatabase [StopTracking, CycleCompletes netUp utc 0 0] started) = [0]
   \<and> syncTimer (tracker (run ''/'' None listDatabase [StopTracking, CycleCompletes netUp utc 0 0] started)) = Some 0"
  by (simp add: started_def newSystem_def newTracker_def startTracking_def syncLoop_begin_def
       stopTracking_def syncLoop_complete_def)

text \<open>
  Why the run has to start tracking at rest: a tracker that is stopped and started again
  while its first cycle is in flight has two cycles in flight, then two pending timers,
  and \<^verbatim>\<open>stopTracking\<close> clears only the one of \<^verbatim>\<open>syncTimer\<close>.
\<close>

lemma restart_in_flight:
  "\<not> startsAtRest ''/'' None listDatabase
       [StartTracking, StopTracking, StartTracking, CycleCompletes netUp utc 0 0,
        CycleCompletes netUp utc 0 0] (newSystem emptyStore)
   \<and> isTracking (tracker (run ''/'' None listDatabase
       [StartTracking, StopTracking, StartTracking, CycleCompletes netUp utc 0 0,
        CycleCompletes netUp utc 0 0] (newSystem emptyStore)))
   \<and> inFlight (run ''/'' None listDatabase
       [StartTracking, StopTracking, StartTracking, CycleCompletes netUp utc 0 0,
        CycleCompletes netUp utc 0 0] (newSystem emptyStore)) = []
   \<and> timers (stopTracking (run ''/'' None listDatabase
       [StartTracking, StopTracking, StartTracking, CycleCompletes netUp utc 0 0,
        CycleCompletes netUp utc 0 0] (newSystem emptyStore))) = [0]"
  by (simp add: newSystem_def newTracker_def startTracking_def syncLoop_begin_def
       stopTracking_def syncLoop_complete_def)

text \<open>
  The theorem at the two states: stopping the idle system leaves no timer, and its old
  timer does nothing; stopping the started system lets its cycle complete and arm the
  timer 0, and once this timer has fired nothing is pending.
\<close>

theorem C8_stop_tracking_witness:
  "startsAtRest ''/'' None listDatabase [StartTracking, CycleCompletes netUp utc 0 0] (newSystem emptyStore)
   \<and> isTracking (tracker idle) \<and> inFlight idle = [] \<and> timers idle = [0]
   \<and> timers (stopTracking idle) = []
   \<and> step ''/'' None listDatabase (TimerFires 0) (stopTracking idle) = stopTracking idle
   \<and> startsAtRest ''/'' None listDatabase [StartTracking] (newSystem emptyStore)
   \<and> isTracking (tracker started) \<and> inFlight started = [[]]
   \<and> step ''/'' None listDatabase (Interaction 10000 (Some doc1)) (stopTracking started) = stopTracking started
   \<and> timers (syncLoop_complete listDatabase netUp utc 0 0 (stopTracking started)) = [0]
   \<and> run ''/'' None listDatabase [TimerFires 0, CycleCompletes netUp utc 0 0]
        (syncLoop_complete listDatabase netUp utc 0 0 (stopTracking started))
      = (syncLoop_complete listDatabase netUp utc 0 0 (stopTracking started))\<lparr>timers := []\<rparr>
   \<and> \<not> isTracking (tracker (run ''/'' None listDatabase
          [CycleCompletes netUp utc 0 0, TimerFires 0, Interaction 10000 (Some doc1)]
          (stopTracking started)))"
proof -
  have ri: "idle = run ''/'' None listDatabase [StartTracking, CycleCompletes netUp utc 0 0] (newSystem emptyStore)"
    by (simp only: idle_def)
  have rs: "started = run ''/'' None listDatabase [StartTracking] (newSystem emptyStore)"
    by (simp only: started_def)
  note a = C8_stop_tracking [where sys = idle and sep = "''/''" and g = None and database = listDatabase
      and evs = "[StartTracking, CycleCompletes netUp utc 0 0]" and db = emptyStore,
      THEN mp, OF conjI [OF runs_start_at_rest(2) conjI [OF ri idle_state(1)]]]
  note b = C8_stop_tracking [where sys = started and sep = "''/''" and g = None and database = listDatabase
      and evs = "[StartTracking]" and db = emptyStore,
      THEN mp, OF conjI [OF runs_start_at_rest(1) conjI [OF rs started_state(1)]]]
  from a have 1: "timers (stopTracking idle) = []" by blast
  have "TimerFires 0 \<noteq> StartTracking" by simp
  with a idle_state(2)
  have 2: "step ''/'' None listDatabase (TimerFires 0) (stopTracking idle) = stopTracking idle"
    by blast
  from b
  have 3: "step ''/'' None listDatabase (Interaction 10000 (Some doc1)) (stopTracking started) = stopTracking started"
    by blast
  have ne: "inFlight started \<noteq> []" by (simp add: started_state)
  note c = b [THEN conjunct2, THEN conjunct2, THEN conjunct2, THEN conjunct2, THEN conjunct1,
      THEN mp, OF ne, THEN spec, THEN spec, THEN spec, THEN spec,
      of netUp utc 0 0]
  from c have 4: "timers (syncLoop_complete listDatabase netUp utc 0 0 (stopTracking started)) = [0]"
    by (simp add: started_state)
  have "CycleCompletes netUp utc 0 0 \<noteq> StartTracking" by simp
  with c [THEN conjunct2, THEN spec, of "CycleCompletes netUp utc 0 0"]
  have "step ''/'' None listDatabase (CycleCompletes netUp utc 0 0)
          (step ''/'' None listDatabase (TimerFires 0)
             (syncLoop_complete listDatabase netUp utc 0 0 (stopTracking started)))
        = (syncLoop_complete listDatabase netUp utc 0 0 (stopTracking started))\<lparr>timers := []\<rparr>"
    by (simp only: started_state(4)) blast
  then have 5: "run ''/'' None listDatabase [TimerFires 0, CycleCompletes netUp utc 0 0]
        (syncLoop_complete listDatabase netUp utc 0 0 (stopTracking started))
      = (syncLoop_complete listDatabase netUp utc 0 0 (stopTracking started))\<lparr>timers := []\<rparr>"
    by (simp only: run.simps)
  have "StartTracking \<notin> set [CycleCompletes netUp utc 0 0, TimerFires 0, Interaction 10000 (Some doc1)]"
    by simp
  with b have 6: "\<not> isTracking (tracker (run ''/'' None listDatabase
          [CycleCompletes netUp utc 0 0, TimerFires 0, Interaction 10000 (Some doc1)]
          (stopTracking started)))"
    by blast
  from runs_start_at_rest idle_state(1-3) started_state(1,2) 1 2 3 4 5 6 show ?thesis by blast
qed

end
